theory Spec2Isabelle
  imports Main "HOL-Library.Sublist"
begin

section \<open>Strings and slices\<close>

text \<open>
  A Python \<open>str\<close> is a sequence of Unicode code points and \<open>len\<close> counts code points,
  so a string is modelled as the list of its code points. ASCII literals of the source are
  written with \<open>lit\<close>; other characters are given by their code point.
\<close>

type_synonym ustr = "nat list"

definition lit :: "string \<Rightarrow> ustr" where
  "lit s = map of_char s"

text \<open>\<open>empty = '\<emptyset>'\<close> in responses.py: the single code point U+2205.\<close>

definition empty :: ustr where
  "empty = [8709]"

text \<open>
  Python's \<open>xs[start:stop]\<close> (step 1). A bound that is left out is \<open>None\<close>. A negative
  bound counts from the end; every bound is then clamped to \<open>0..len(xs)\<close>, and the slice is
  empty when the adjusted start is not below the adjusted stop. Slicing never raises.
\<close>

definition adjust_index :: "int \<Rightarrow> nat \<Rightarrow> nat" where
  "adjust_index i n =
     (if i < 0 then (if i + int n < 0 then 0 else nat (i + int n))
      else if int n \<le> i then n else nat i)"

definition py_slice :: "'a list \<Rightarrow> int option \<Rightarrow> int option \<Rightarrow> 'a list" where
  "py_slice xs start stop =
     (let n = length xs;
          a = (case start of None \<Rightarrow> 0 | Some i \<Rightarrow> adjust_index i n);
          b = (case stop of None \<Rightarrow> n | Some j \<Rightarrow> adjust_index j n)
      in if a < b then take (b - a) (drop a xs) else [])"

text \<open>\<open>x or d\<close> on an optional string: \<open>None\<close> and the empty string are both falsy.\<close>

definition or_else :: "ustr option \<Rightarrow> ustr \<Rightarrow> ustr" where
  "or_else x d = (case x of None \<Rightarrow> d | Some s \<Rightarrow> if s = [] then d else s)"

section \<open>Answer shapes (responses.py)\<close>

datatype pyexc = ValueError | ValidationError | IndexError | TypeError | AttributeError | MarkupError

text \<open>The classes derived from \<open>WordResponse\<close>, as class objects (\<open>node.response_type\<close>).\<close>

datatype response_type =
    PrefixedAnalyticalWord
  | SuffixedPronoun
  | CompleteForm
  | PrefixedSuffixedMorpheme
  | MorphemeType

text \<open>Validated instances of those classes, with their fields.\<close>

datatype response =
    PrefixedAnalyticalWordResponse "ustr option"
  | SuffixedPronounResponse "ustr option"
  | CompleteFormResponse ustr
  | PrefixedSuffixedMorphemeResponse "ustr option" "ustr option"
  | MorphemeTypeResponse ustr

fun get_question :: "response_type \<Rightarrow> ustr \<Rightarrow> ustr" where
  "get_question PrefixedAnalyticalWord word =
     lit ''Is there any prefixed analytical word (preposition or '' @ [1816]
       @ lit '') in the word '' @ word @ lit ''?''"
| "get_question SuffixedPronoun word =
     lit ''Is there any suffixed pronoun (possesive, objective, or attached to participles) in the word ''
       @ word @ lit ''?''"
| "get_question CompleteForm word =
     lit ''What is the complete form of the word '' @ word @ lit ''?''"
| "get_question PrefixedSuffixedMorpheme word =
     lit ''Is there any prefixed morpheme or suffixed morpheme in the word '' @ word @ lit ''?''"
| "get_question MorphemeType word =
     lit ''What category does the morpheme of the word '' @ word @ lit '' belong to? ''
       @ lit ''Choose from preformative, passive prefix, verbal stem morpheme, ''
       @ lit ''verbal ending, nominal ending, or emphatic marker.''"

text \<open>
  \<open>get_part(self, word, index)\<close>. The \<open>match index\<close> statement of the three multi-part
  classes raises \<open>ValueError\<close> in its default case; the two terminal classes ignore both
  arguments.
\<close>

fun get_part :: "response \<Rightarrow> ustr \<Rightarrow> int \<Rightarrow> pyexc + ustr" where
  "get_part (PrefixedAnalyticalWordResponse p) word index =
     (let prefix = or_else p [] in
      if index = 0 then Inr prefix
      else if index = 1 then Inr (py_slice word (Some (int (length prefix))) None)
      else Inl ValueError)"
| "get_part (SuffixedPronounResponse sf) word index =
     (let suffix = or_else sf [] in
      if index = 0 then Inr (py_slice word None (Some (int (length word) - int (length suffix))))
      else if index = 1 then Inr suffix
      else Inl ValueError)"
| "get_part (CompleteFormResponse complete) word index = Inr complete"
| "get_part (PrefixedSuffixedMorphemeResponse p sf) word index =
     (let prefix = or_else p []; suffix = or_else sf [] in
      if index = 0 then Inr prefix
      else if index = 1 then
        Inr (py_slice word (Some (int (length prefix)))
               (Some (int (length word) - int (length suffix))))
      else if index = 2 then Inr suffix
      else Inl ValueError)"
| "get_part (MorphemeTypeResponse morpheme_type) word index = Inr morpheme_type"

text \<open>\<open>__str__\<close>: the rendering written to the trace.\<close>

fun str :: "response \<Rightarrow> ustr" where
  "str (PrefixedAnalyticalWordResponse p) = lit ''Prefix: '' @ or_else p empty"
| "str (SuffixedPronounResponse sf) = lit ''Suffix: '' @ or_else sf empty"
| "str (CompleteFormResponse complete) = lit ''Complete form: '' @ or_else (Some complete) empty"
| "str (PrefixedSuffixedMorphemeResponse p sf) =
     lit ''Prefix: '' @ or_else p empty @ lit '', Suffix: '' @ or_else sf empty"
| "str (MorphemeTypeResponse morpheme_type) =
     lit ''Morpheme type: '' @ or_else (Some morpheme_type) empty"

section \<open>The decomposition tree (responses.py)\<close>

text \<open>The dataclass \<open>Node\<close>: a response class and the list of child slots, each a node or \<open>None\<close>.\<close>

datatype node = Node (response_type: response_type) (children: "node option list")

definition response_tree :: node where
  "response_tree =
     Node PrefixedAnalyticalWord
       [None,
        Some (Node SuffixedPronoun
          [Some (Node CompleteForm
             [Some (Node PrefixedSuffixedMorpheme
                [Some (Node MorphemeType []),
                 Some (Node MorphemeType []),
                 Some (Node MorphemeType [])])]),
           Some (Node CompleteForm [])])]"

section \<open>Validation of a payload (pydantic)\<close>

text \<open>
  \<open>model_validate_json\<close> parses the payload as JSON text and validates the value against
  the class. The text parser belongs to the library and is a parameter of the model
  (\<open>json_loads\<close> below, \<open>None\<close> for text that is not JSON); an object is taken with one
  member per key. The validation of the parsed value follows the class declarations of
  responses.py, read as the library reads them in the version whose interface the code
  uses (\<open>ConfigDict\<close>, \<open>model_validate_json\<close>): \<open>extra='forbid'\<close> rejects an object
  with a key that is not a declared field; no field is declared with a default value, so
  each declared field has to be present, also one whose type admits \<open>None\<close>; a field
  annotated \<open>str\<close> takes a JSON string, \<open>str | None\<close> a string or \<open>null\<close>,
  \<open>list[str]\<close> an array of strings. A number is kept as its text.
\<close>

datatype json =
    JNull
  | JBool bool
  | JNumber ustr
  | JString ustr
  | JArray "json list"
  | JObject "(ustr \<times> json) list"

fun as_str :: "json \<Rightarrow> ustr option" where
  "as_str (JString s) = Some s"
| "as_str _ = None"

fun as_opt_str :: "json \<Rightarrow> ustr option option" where
  "as_opt_str JNull = Some None"
| "as_opt_str (JString s) = Some (Some s)"
| "as_opt_str _ = None"

fun as_str_list :: "json list \<Rightarrow> ustr list option" where
  "as_str_list [] = Some []"
| "as_str_list (j # js) =
     (case as_str j of None \<Rightarrow> None
      | Some s \<Rightarrow> (case as_str_list js of None \<Rightarrow> None | Some ss \<Rightarrow> Some (s # ss)))"

definition known_keys :: "ustr list \<Rightarrow> (ustr \<times> json) list \<Rightarrow> bool" where
  "known_keys names kvs = list_all (\<lambda>kv. fst kv \<in> set names) kvs"

definition field :: "(ustr \<times> json) list \<Rightarrow> string \<Rightarrow> (json \<Rightarrow> 'a option) \<Rightarrow> 'a option" where
  "field kvs name conv = Option.bind (map_of kvs (lit name)) conv"

fun model_validate :: "response_type \<Rightarrow> json \<Rightarrow> pyexc + response" where
  "model_validate PrefixedAnalyticalWord (JObject kvs) =
     (if known_keys [lit ''prefix''] kvs then
        (case field kvs ''prefix'' as_opt_str of
           Some p \<Rightarrow> Inr (PrefixedAnalyticalWordResponse p)
         | None \<Rightarrow> Inl ValidationError)
      else Inl ValidationError)"
| "model_validate SuffixedPronoun (JObject kvs) =
     (if known_keys [lit ''suffix''] kvs then
        (case field kvs ''suffix'' as_opt_str of
           Some sf \<Rightarrow> Inr (SuffixedPronounResponse sf)
         | None \<Rightarrow> Inl ValidationError)
      else Inl ValidationError)"
| "model_validate CompleteForm (JObject kvs) =
     (if known_keys [lit ''complete''] kvs then
        (case field kvs ''complete'' as_str of
           Some c \<Rightarrow> Inr (CompleteFormResponse c)
         | None \<Rightarrow> Inl ValidationError)
      else Inl ValidationError)"
| "model_validate PrefixedSuffixedMorpheme (JObject kvs) =
     (if known_keys [lit ''prefix'', lit ''suffix''] kvs then
        (case (field kvs ''prefix'' as_opt_str, field kvs ''suffix'' as_opt_str) of
           (Some p, Some sf) \<Rightarrow> Inr (PrefixedSuffixedMorphemeResponse p sf)
         | _ \<Rightarrow> Inl ValidationError)
      else Inl ValidationError)"
| "model_validate MorphemeType (JObject kvs) =
     (if known_keys [lit ''morpheme_type''] kvs then
        (case field kvs ''morpheme_type'' as_str of
           Some m \<Rightarrow> Inr (MorphemeTypeResponse m)
         | None \<Rightarrow> Inl ValidationError)
      else Inl ValidationError)"
| "model_validate _ _ = Inl ValidationError"

definition model_validate_json ::
  "(ustr \<Rightarrow> json option) \<Rightarrow> response_type \<Rightarrow> ustr \<Rightarrow> pyexc + response" where
  "model_validate_json loads t payload =
     (case loads payload of None \<Rightarrow> Inl ValidationError | Some j \<Rightarrow> model_validate t j)"

text \<open>\<open>ListWordsResponse.model_validate_json(response).words\<close>.\<close>

fun list_words_validate :: "json \<Rightarrow> pyexc + ustr list" where
  "list_words_validate (JObject kvs) =
     (if known_keys [lit ''words''] kvs then
        (case map_of kvs (lit ''words'') of
           Some (JArray js) \<Rightarrow>
             (case as_str_list js of Some ws \<Rightarrow> Inr ws | None \<Rightarrow> Inl ValidationError)
         | _ \<Rightarrow> Inl ValidationError)
      else Inl ValidationError)"
| "list_words_validate _ = Inl ValidationError"

definition list_words_validate_json :: "(ustr \<Rightarrow> json option) \<Rightarrow> ustr \<Rightarrow> pyexc + ustr list" where
  "list_words_validate_json loads payload =
     (case loads payload of None \<Rightarrow> Inl ValidationError | Some j \<Rightarrow> list_words_validate j)"

definition get_question_message :: "ustr \<Rightarrow> ustr" where
  "get_question_message sentence =
     lit ''Please list all the words in the following sentence: '' @ sentence"

section \<open>The conversation (utils/api.py)\<close>

datatype role = SYSTEM | USER | ASSISTANT | TOOL

text \<open>One entry of \<open>tool_calls\<close>: \<open>['id']\<close>, \<open>['function']['name']\<close>, \<open>['function']['arguments']\<close>.\<close>

datatype tool_call = ToolCall (call_id: ustr) (function_name: ustr) (function_arguments: ustr)

text \<open>The dataclass \<open>Message\<close> and its subclass \<open>ToolMessage\<close> (two more fields).\<close>

datatype message =
    Message role ustr "tool_call list option"
  | ToolMessage role ustr "tool_call list option" ustr ustr

text \<open>
  The dictionary that \<open>cast\<close> makes of an entry: \<open>role\<close>, \<open>content\<close>, \<open>tool_calls\<close> when it is
  not \<open>None\<close> (the key is deleted otherwise), and for a \<open>ToolMessage\<close> also
  \<open>tool_call_id\<close> and \<open>name\<close>.
\<close>

datatype param = Param role ustr "tool_call list option" "(ustr \<times> ustr) option"

fun cast :: "message \<Rightarrow> param" where
  "cast (Message r c tc) = Param r c tc None"
| "cast (ToolMessage r c tc i n) = Param r c tc (Some (i, n))"

record message_queue =
  messages :: "message list"
  argument :: ustr

definition MessageQueue :: message_queue where
  "MessageQueue = \<lparr>messages = [], argument = []\<rparr>"

definition get_messages :: "message_queue \<Rightarrow> param list" where
  "get_messages q = map cast (messages q)"

definition register_message :: "message_queue \<Rightarrow> role \<Rightarrow> ustr \<Rightarrow> message_queue" where
  "register_message q r c = q\<lparr>messages := messages q @ [Message r c None]\<rparr>"

definition register_system_message :: "message_queue \<Rightarrow> ustr \<Rightarrow> message_queue" where
  "register_system_message q c = register_message q SYSTEM c"

text \<open>The frame is \<open>Text: """\n{content}\n"""\<close>; 34 is the double quote, 10 the newline.\<close>

definition register_user_message :: "message_queue \<Rightarrow> ustr \<Rightarrow> message_queue" where
  "register_user_message q c =
     register_message q USER (lit ''Text: '' @ [34, 34, 34, 10] @ c @ [10, 34, 34, 34])"

text \<open>
  The \<open>GenerationResponse\<close> of the service, as far as the program reads it:
  \<open>status_code\<close>, \<open>code\<close>, \<open>message\<close>, and \<open>output.choices[i].message\<close> with its
  \<open>content\<close> and \<open>tool_calls\<close>. A reply may come without the key \<open>tool_calls\<close>
  (\<open>Missing\<close>), or with the value \<open>None\<close> for it.
\<close>

datatype 'a attr = Missing | Present 'a

record reply =
  content :: ustr
  tool_calls :: "tool_call list option attr"

record completion =
  status_code :: int
  code :: ustr
  message :: ustr
  choices :: "reply list"

text \<open>
  What \<open>print\<close> shows to the operator, one value per call, and the text of each.
  \<open>print\<close> is the one of \<open>rich\<close> (\<open>from rich import print\<close> in api.py and parser.py):
  it reads its text as console markup before anything is shown, and raises
  \<open>MarkupError\<close>, showing nothing, where it refuses the markup, as it does for a closing
  tag that has nothing to close. Whether a text is rendered is the library's matter and a
  parameter of the model (\<open>renders\<close>). The two fixed warnings consist of one opening
  tag, plain words and one closing tag; they are rendered.
\<close>

datatype printed =
    Payload ustr
  | InvalidJSON
  | SentenceFailed
  | RequestError ustr ustr

fun printed_text :: "printed \<Rightarrow> ustr" where
  "printed_text (Payload p) = p"
| "printed_text InvalidJSON = lit ''[bold yellow]LLM has returned an invalid JSON![/]''"
| "printed_text SentenceFailed = lit ''[bold yellow]Sentence parsing failed![/]''"
| "printed_text (RequestError c m) =
     lit ''[bold yellow]Request error '' @ c @ lit '': '' @ m @ lit ''[/]''"

text \<open>
  \<open>register_response\<close> returns the queue, what it printed, and the exception it raised if
  any. With status 200 it reads \<open>choices[0]\<close> (\<open>IndexError\<close> on an empty list), then
  \<open>message.tool_calls\<close> (\<open>AttributeError\<close> when the reply has no such key), appends the
  assistant entry, and only then evaluates \<open>calls[0]\<close> for the tool entry
  (\<open>TypeError\<close> when \<open>calls\<close> is \<open>None\<close>, \<open>IndexError\<close> when it is empty). A reply
  is taken to have its content and a tool call its three keys. With another status it
  prints the warning, whose text holds the code and the message of the service, and sets
  the payload to the empty string after that: when the print raises, the payload stays.
\<close>

definition register_response ::
  "(ustr \<Rightarrow> bool) \<Rightarrow> message_queue \<Rightarrow> completion
     \<Rightarrow> (pyexc + unit) \<times> message_queue \<times> printed list" where
  "register_response rendered q completion =
     (if status_code completion = 200 then
        (case choices completion of
           [] \<Rightarrow> (Inl IndexError, q, [])
         | m # _ \<Rightarrow>
            (case tool_calls m of
               Missing \<Rightarrow> (Inl AttributeError, q, [])
             | Present calls \<Rightarrow>
                (let q1 = q\<lparr>messages := messages q @ [Message ASSISTANT (content m) calls]\<rparr>
                 in case calls of
                      None \<Rightarrow> (Inl TypeError, q1, [])
                    | Some [] \<Rightarrow> (Inl IndexError, q1, [])
                    | Some (c # _) \<Rightarrow>
                        (Inr (),
                         q1\<lparr>messages := messages q1
                                @ [ToolMessage TOOL [] None (call_id c) (function_name c)],
                            argument := function_arguments c\<rparr>,
                         []))))
      else
        (let warning = RequestError (code completion) (message completion)
         in if rendered (printed_text warning) then (Inr (), q\<lparr>argument := []\<rparr>, [warning])
            else (Inl MarkupError, q, [])))"

section \<open>The parser (parser.py)\<close>

text \<open>
  The effects of the program are writes to the output file, prints to the operator and
  requests to the service. Each write of the source is one entry of \<open>outfile\<close> (\<open>self.file\<close>); \<open>render\<close>
  gives the text that the write puts in the file (\<open>pad\<close> is four spaces, 10 the newline).
\<close>

datatype out =
    SentenceLine ustr
  | WordLine nat ustr
  | AnswerLine nat response
  | Blank

definition pad :: ustr where
  "pad = lit ''    ''"

fun render :: "out \<Rightarrow> ustr" where
  "render (SentenceLine sentence) = lit ''Sentence: '' @ sentence @ [10]"
| "render (WordLine indent word) = [10] @ concat (replicate indent pad) @ lit ''Word: '' @ word @ [10]"
| "render (AnswerLine indent res) = concat (replicate indent pad) @ str res @ [10]"
| "render Blank = [10]"

text \<open>The tool of a request: \<open>ListWordsResponse\<close> or one of the \<open>WordResponse\<close> classes.\<close>

datatype tool = ListWords | WordTool response_type

text \<open>
  The state: the writes so far, the prints so far, the requests sent so far (the messages of
  each and its tool), and the conversation of the sentence at hand. The parser holds one
  \<open>MessageQueue\<close> at a time, made anew by \<open>parse_sentence\<close>.
\<close>

record st =
  outfile :: "out list"
  console :: "printed list"
  sent :: "(param list \<times> tool) list"
  queue :: message_queue

text \<open>
  What the program is run against: the service behind \<open>dashscope.Generation.call\<close>, which
  answers the latest request and may depend on all requests before it; the JSON text parser
  of \<open>model_validate_json\<close>; the markup renderer of \<open>print\<close> (whether it renders a
  text); and the priming text \<open>system_message\<close> of responses.py, a fixed
  literal whose content nothing below depends on.
\<close>

record env =
  call :: "(param list \<times> tool) list \<Rightarrow> completion"
  json_loads :: "ustr \<Rightarrow> json option"
  renders :: "ustr \<Rightarrow> bool"
  system_message :: ustr

text \<open>
  \<open>ClientDashScope.request\<close>: send the messages of the queue with the tool, register
  the reply, return \<open>queue.argument\<close>. The call is not streamed, so the assertion on
  the type of the reply holds.
\<close>

definition request :: "env \<Rightarrow> st \<Rightarrow> tool \<Rightarrow> (pyexc + ustr) \<times> st" where
  "request E s t =
     (let s1 = s\<lparr>sent := sent s @ [(get_messages (queue s), t)]\<rparr>;
          completion = call E (sent s1)
      in case register_response (renders E) (queue s1) completion of
           (r, q, ps) \<Rightarrow>
             (let s2 = s1\<lparr>queue := q, console := console s1 @ ps\<rparr>
              in case r of Inl e \<Rightarrow> (Inl e, s2) | Inr u \<Rightarrow> (Inr (argument q), s2)))"

text \<open>
  \<open>parse_word\<close> and its loop over \<open>enumerate(node.children)\<close>. An exception leaves the
  function with the state as it is at that point. The handler of a failed validation
  prints the payload first: when that print raises, its \<open>MarkupError\<close> leaves the
  function in place of the validation error and the warning is not printed.
  \<open>if child and word_part\<close>: a node is truthy, \<open>None\<close> and the empty string are not.
\<close>

fun parse_word :: "env \<Rightarrow> st \<Rightarrow> ustr \<Rightarrow> node \<Rightarrow> nat \<Rightarrow> (pyexc + unit) \<times> st"
  and parse_children ::
    "env \<Rightarrow> st \<Rightarrow> response \<Rightarrow> ustr \<Rightarrow> node option list \<Rightarrow> int \<Rightarrow> nat \<Rightarrow> (pyexc + unit) \<times> st"
where
  "parse_word E s word (Node ty slots) indent =
     (let s1 = s\<lparr>outfile := outfile s @ [WordLine indent word]\<rparr>;
          s2 = s1\<lparr>queue := register_user_message (queue s1) (get_question ty word)\<rparr>
      in case request E s2 (WordTool ty) of
           (Inl e, s3) \<Rightarrow> (Inl e, s3)
         | (Inr response, s3) \<Rightarrow>
             (case model_validate_json (json_loads E) ty response of
                Inl e \<Rightarrow>
                  if renders E response then
                    (Inl e, s3\<lparr>console := console s3 @ [Payload response, InvalidJSON]\<rparr>)
                  else (Inl MarkupError, s3)
              | Inr res \<Rightarrow>
                  parse_children E (s3\<lparr>outfile := outfile s3 @ [AnswerLine (indent + 1) res]\<rparr>)
                    res word slots 0 indent))"
| "parse_children E s res word [] i indent = (Inr (), s)"
| "parse_children E s res word (child # rest) i indent =
     (case get_part res word i of
        Inl e \<Rightarrow> (Inl e, s)
      | Inr word_part \<Rightarrow>
          (case child of
             None \<Rightarrow> parse_children E s res word rest (i + 1) indent
           | Some c \<Rightarrow>
               if word_part \<noteq> [] then
                 (case parse_word E s word_part c (indent + 1) of
                    (Inl e, s') \<Rightarrow> (Inl e, s')
                  | (Inr u, s') \<Rightarrow> parse_children E s' res word rest (i + 1) indent)
               else parse_children E s res word rest (i + 1) indent))"

text \<open>
  The loop \<open>for word in words\<close> of \<open>parse_sentence\<close>, with the module-level \<open>response_tree\<close>
  as an argument: \<open>except Exception\<close> takes whatever \<open>parse_word\<close> raised, prints its fixed
  warning, and the blank line is written in either case.
\<close>

fun parse_words :: "env \<Rightarrow> node \<Rightarrow> st \<Rightarrow> ustr list \<Rightarrow> (pyexc + unit) \<times> st" where
  "parse_words E tree s [] = (Inr (), s)"
| "parse_words E tree s (word # rest) =
     (let s2 = (case parse_word E s word tree 0 of
                  (Inl e, s1) \<Rightarrow> s1\<lparr>console := console s1 @ [SentenceFailed]\<rparr>
                | (Inr u, s1) \<Rightarrow> s1)
      in parse_words E tree (s2\<lparr>outfile := outfile s2 @ [Blank]\<rparr>) rest)"

text \<open>
  \<open>parse_sentence\<close>. The request for the word list is outside the \<open>try\<close>: what it raises
  leaves the function. A payload that does not validate is printed, then the warning, and
  \<open>words = []\<close>; when the print of the payload raises, its \<open>MarkupError\<close> leaves the
  function from inside the handler.
\<close>

definition parse_sentence_with :: "node \<Rightarrow> env \<Rightarrow> st \<Rightarrow> ustr \<Rightarrow> (pyexc + unit) \<times> st" where
  "parse_sentence_with tree E s sentence =
     (let s1 = s\<lparr>outfile := outfile s @ [SentenceLine sentence]\<rparr>;
          q1 = register_system_message MessageQueue (system_message E);
          q2 = register_user_message q1 (get_question_message sentence);
          s2 = s1\<lparr>queue := q2\<rparr>
      in case request E s2 ListWords of
           (Inl e, s3) \<Rightarrow> (Inl e, s3)
         | (Inr response, s3) \<Rightarrow>
             (case list_words_validate_json (json_loads E) response of
                Inl e \<Rightarrow>
                  if renders E response then
                    parse_words E tree
                      (s3\<lparr>console := console s3 @ [Payload response, InvalidJSON]\<rparr>) []
                  else (Inl MarkupError, s3)
              | Inr words \<Rightarrow> parse_words E tree s3 words))"

definition parse_sentence :: "env \<Rightarrow> st \<Rightarrow> ustr \<Rightarrow> (pyexc + unit) \<times> st" where
  "parse_sentence = parse_sentence_with response_tree"

text \<open>
  The loop of \<open>parse\<close> over the sentences of the corpus (the list that the split of the
  input text gives); nothing is caught here.
\<close>

fun parse_sentences :: "env \<Rightarrow> st \<Rightarrow> ustr list \<Rightarrow> (pyexc + unit) \<times> st" where
  "parse_sentences E s [] = (Inr (), s)"
| "parse_sentences E s (sentence # rest) =
     (case parse_sentence E s sentence of
        (Inl e, s') \<Rightarrow> (Inl e, s')
      | (Inr u, s') \<Rightarrow> parse_sentences E s' rest)"

section \<open>Notions used to state the properties\<close>

text \<open>
  The indices for which a class defines a part: 0 and 1 for a prefix or suffix answer,
  0 to 2 for a prefix-and-suffix answer, every index for the two terminal classes.
\<close>

definition valid_index :: "response \<Rightarrow> int \<Rightarrow> bool" where
  "valid_index r i =
     (case r of
        PrefixedAnalyticalWordResponse p \<Rightarrow> i = 0 \<or> i = 1
      | SuffixedPronounResponse sf \<Rightarrow> i = 0 \<or> i = 1
      | CompleteFormResponse c \<Rightarrow> True
      | PrefixedSuffixedMorphemeResponse p sf \<Rightarrow> i = 0 \<or> i = 1 \<or> i = 2
      | MorphemeTypeResponse m \<Rightarrow> True)"

text \<open>
  The concatenation, in the order of the given indices, of the non-empty parts that
  \<open>get_part\<close> returns for them; an exception of \<open>get_part\<close> is passed on.
\<close>

fun concat_parts :: "response \<Rightarrow> ustr \<Rightarrow> int list \<Rightarrow> pyexc + ustr" where
  "concat_parts r word [] = Inr []"
| "concat_parts r word (i # is) =
     (case get_part r word i of
        Inl e \<Rightarrow> Inl e
      | Inr part \<Rightarrow>
          (case concat_parts r word is of
             Inl e \<Rightarrow> Inl e
           | Inr rest \<Rightarrow> Inr ((if part \<noteq> [] then part else []) @ rest)))"

text \<open>The indents of the \<open>Word:\<close> lines among some writes, in the order of writing.\<close>

fun word_depths :: "out list \<Rightarrow> nat list" where
  "word_depths [] = []"
| "word_depths (WordLine d w # xs) = d # word_depths xs"
| "word_depths (x # xs) = word_depths xs"

text \<open>
  The nodes of a tree in preorder, children in the order of their slots, each with its
  depth and the tool of its question; and the height of a tree, the number of edges on its
  longest path.
\<close>

fun preorder :: "node \<Rightarrow> nat \<Rightarrow> (nat \<times> tool) list"
  and preorders :: "node option list \<Rightarrow> nat \<Rightarrow> (nat \<times> tool) list" where
  "preorder (Node ty slots) d = (d, WordTool ty) # preorders slots (d + 1)"
| "preorders [] d = []"
| "preorders (None # slots) d = preorders slots d"
| "preorders (Some n # slots) d = preorder n d @ preorders slots d"

fun height :: "node \<Rightarrow> nat" and heights :: "node option list \<Rightarrow> nat" where
  "height (Node ty slots) = heights slots"
| "heights [] = 0"
| "heights (None # slots) = heights slots"
| "heights (Some n # slots) = max (height n + 1) (heights slots)"

text \<open>The state after the first two statements of \<open>parse_word\<close>: the line written, the question registered.\<close>

definition ask :: "st \<Rightarrow> response_type \<Rightarrow> ustr \<Rightarrow> nat \<Rightarrow> st" where
  "ask s ty word indent =
     s\<lparr>outfile := outfile s @ [WordLine indent word],
       queue := register_user_message (queue s) (get_question ty word)\<rparr>"

text \<open>
  What happened between two states of a walk: the file and the list of requests have
  grown at the end, by as many \<open>Word:\<close> lines as requests; \<open>vs\<close> pairs the indent of each
  such line with the tool of the request that went with it; every one of these requests
  carried messages that begin with the conversation as it was at the start; and the
  conversation has grown at the end.
\<close>

definition walked :: "st \<Rightarrow> st \<Rightarrow> (nat \<times> tool) list \<Rightarrow> bool" where
  "walked s s' vs \<longleftrightarrow>
     (\<exists>new reqs. outfile s' = outfile s @ new \<and> sent s' = sent s @ reqs
        \<and> length reqs = length (word_depths new)
        \<and> vs = zip (word_depths new) (map snd reqs)
        \<and> list_all (\<lambda>rq. prefix (get_messages (queue s)) (fst rq)) reqs
        \<and> prefix (messages (queue s)) (messages (queue s')))"



text \<open>A \<open>Word:\<close> or answer line indented more than \<open>k\<close> levels.\<close>

fun deeper :: "nat \<Rightarrow> out \<Rightarrow> bool" where
  "deeper k (WordLine d w) = (k < d)"
| "deeper k (AnswerLine d r) = (k < d)"
| "deeper k _ = False"

text \<open>The state of \<open>parse_sentence\<close> before its request: the header written, a new conversation primed.\<close>

definition begin_sentence :: "env \<Rightarrow> st \<Rightarrow> ustr \<Rightarrow> st" where
  "begin_sentence E s sentence =
     s\<lparr>outfile := outfile s @ [SentenceLine sentence],
       queue := register_user_message
                  (register_system_message MessageQueue (system_message E))
                  (get_question_message sentence)\<rparr>"

text \<open>
  The class of an answer; that a class defines a part for each of the first \<open>n\<close> indices;
  and a tree in which no node has more child slots than its class has parts.
\<close>

fun class_of :: "response \<Rightarrow> response_type" where
  "class_of (PrefixedAnalyticalWordResponse p) = PrefixedAnalyticalWord"
| "class_of (SuffixedPronounResponse sf) = SuffixedPronoun"
| "class_of (CompleteFormResponse c) = CompleteForm"
| "class_of (PrefixedSuffixedMorphemeResponse p sf) = PrefixedSuffixedMorpheme"
| "class_of (MorphemeTypeResponse m) = MorphemeType"

fun fits :: "response_type \<Rightarrow> nat \<Rightarrow> bool" where
  "fits PrefixedAnalyticalWord n = (n \<le> 2)"
| "fits SuffixedPronoun n = (n \<le> 2)"
| "fits CompleteForm n = True"
| "fits PrefixedSuffixedMorpheme n = (n \<le> 3)"
| "fits MorphemeType n = True"

fun well_shaped :: "node \<Rightarrow> bool" and well_shaped_slots :: "node option list \<Rightarrow> bool" where
  "well_shaped (Node ty slots) = (fits ty (length slots) \<and> well_shaped_slots slots)"
| "well_shaped_slots [] = True"
| "well_shaped_slots (None # slots) = well_shaped_slots slots"
| "well_shaped_slots (Some n # slots) = (well_shaped n \<and> well_shaped_slots slots)"

text \<open>
  A renderer for examples, after the tag scan of rich's markup. A tag is an opening
  bracket (91), a first character that is a lower-case letter, \<open>#\<close>, \<open>/\<close> or \<open>@\<close>, then
  anything but an opening bracket up to the next closing bracket (93). A tag that begins
  with \<open>/\<close> (47) closes the tag opened last and is refused when none is open; any other
  tag opens. Escapes by backslash are left out, and a closing tag with a name is taken
  like \<open>[/]\<close>; the examples have neither.
\<close>

definition tag_start :: "nat \<Rightarrow> bool" where
  "tag_start c \<longleftrightarrow> (97 \<le> c \<and> c \<le> 122) \<or> c = 35 \<or> c = 47 \<or> c = 64"

fun tags :: "ustr \<Rightarrow> ustr option \<Rightarrow> ustr list" where
  "tags [] cand = []"
| "tags (c # cs) cand =
     (if c = 91 then tags cs (Some [])
      else case cand of
             None \<Rightarrow> tags cs None
           | Some t \<Rightarrow>
               if c = 93 then
                 (case t of
                    [] \<Rightarrow> tags cs None
                  | a # _ \<Rightarrow> if tag_start a then t # tags cs None else tags cs None)
               else tags cs (Some (t @ [c])))"

fun closes :: "ustr list \<Rightarrow> nat \<Rightarrow> bool" where
  "closes [] depth = True"
| "closes ([] # ts) depth = closes ts depth"
| "closes ((a # t) # ts) depth =
     (if a = 47 then 0 < depth \<and> closes ts (depth - 1) else closes ts (depth + 1))"

definition markup_closes :: "ustr \<Rightarrow> bool" where
  "markup_closes text = closes (tags text None) 0"

text \<open>
  A service for examples: the \<open>n\<close>-th request of a run gets the status of the \<open>n\<close>-th
  entry of a script and, as payload of its one tool call, a text that the parser reads as
  the JSON value of that entry; no other text is JSON. Beyond the script the service fails.
\<close>

definition scripted :: "(int \<times> json) list \<Rightarrow> env" where
  "scripted script =
     \<lparr>call = (\<lambda>h. let n = length h in
          if 0 < n \<and> n \<le> length script then
            \<lparr>status_code = fst (script ! (n - 1)), code = [], message = [],
             choices = [\<lparr>content = [], tool_calls = Present (Some [ToolCall [] [] [n]])\<rparr>]\<rparr>
          else \<lparr>status_code = 500, code = [], message = [], choices = []\<rparr>),
      json_loads = (\<lambda>p. case p of
          [n] \<Rightarrow> if 0 < n \<and> n \<le> length script then Some (snd (script ! (n - 1))) else None
        | _ \<Rightarrow> None),
      renders = markup_closes,
      system_message = []\<rparr>"

text \<open>
  A second service for examples: every request gets the same status, the same message and
  the same payload; no text is JSON.
\<close>

definition fixed_service :: "int \<Rightarrow> ustr \<Rightarrow> ustr \<Rightarrow> env" where
  "fixed_service status msg payload =
     \<lparr>call = (\<lambda>h. \<lparr>status_code = status, code = [], message = msg,
                   choices = [\<lparr>content = [], tool_calls = Present (Some [ToolCall [] [] payload])\<rparr>]\<rparr>),
      json_loads = (\<lambda>p. None),
      renders = markup_closes,
      system_message = []\<rparr>"

text \<open>The state at the start of a run: nothing written, printed or sent.\<close>

definition start :: st where
  "start = \<lparr>outfile = [], console = [], sent = [], queue = MessageQueue\<rparr>"

text \<open>
  The state after \<open>parse_word\<close> has asked its question of the example service, got a
  payload that validates, and written the answer line.
\<close>

definition after_answer :: "st \<Rightarrow> response_type \<Rightarrow> ustr \<Rightarrow> nat \<Rightarrow> response \<Rightarrow> st" where
  "after_answer s ty word indent res =
     s\<lparr>outfile := outfile s @ [WordLine indent word, AnswerLine (indent + 1) res],
       sent := sent s @ [(get_messages (queue (ask s ty word indent)), WordTool ty)],
       queue := \<lparr>messages = messages (queue (ask s ty word indent))
                    @ [Message ASSISTANT [] (Some [ToolCall [] [] [Suc (length (sent s))]]),
                       ToolMessage TOOL [] None [] []],
                 argument = [Suc (length (sent s))]\<rparr>\<rparr>"

text \<open>
  The answers of the worked example in \<open>system_message\<close>, for the word U+0718 U+0721
  U+072B U+071F U+071A U+071D U+0722 U+0722, in the order in which the walk asks for them.
\<close>

definition full_script :: "(int \<times> json) list" where
  "full_script =
     [(200, JObject [(lit ''prefix'', JString [1816])]),
      (200, JObject [(lit ''suffix'', JString [1826, 1826])]),
      (200, JObject [(lit ''complete'', JString [1825, 1835, 1823, 1818, 1821, 1826])]),
      (200, JObject [(lit ''prefix'', JString [1825]), (lit ''suffix'', JString [1821, 1826])]),
      (200, JObject [(lit ''morpheme_type'', JString (lit ''performative''))]),
      (200, JObject [(lit ''morpheme_type'', JString (lit ''verbal ending''))]),
      (200, JObject [(lit ''morpheme_type'', JString (lit ''nominal ending''))]),
      (200, JObject [(lit ''complete'', JString [1818, 1826, 1826])])]"

section \<open>Slices and parts\<close>

lemma nonempty_or_nil: "(if part \<noteq> [] then part else []) = (part::'a list)"
  by simp

lemma nat_int_diff: "nat (int a - int b) = a - b"
  by arith

lemma py_slice_from: "py_slice xs (Some (int k)) None = drop k xs"
  by (auto simp: py_slice_def adjust_index_def Let_def)

lemma py_slice_upto:
  "length ys \<le> length xs \<Longrightarrow>
   py_slice xs None (Some (int (length xs) - int (length ys))) = take (length xs - length ys) xs"
  by (auto simp: py_slice_def adjust_index_def Let_def nat_int_diff)

lemma py_slice_mid:
  "length ys \<le> length xs \<Longrightarrow>
   py_slice xs (Some (int k)) (Some (int (length xs) - int (length ys)))
   = drop k (take (length xs - length ys) xs)"
  by (auto simp: py_slice_def adjust_index_def Let_def drop_take nat_int_diff)

lemma py_slice_sublist: "sublist (py_slice xs a b) xs"
proof -
  have "sublist (take n (drop k xs)) xs" for n k
    by (metis sublist_drop sublist_order.order.trans sublist_take)
  then show ?thesis by (auto simp: py_slice_def Let_def)
qed

lemma py_slice_None_prefix: "prefix (py_slice xs None b) xs"
  by (auto simp: py_slice_def Let_def take_is_prefix)

lemma concat_prefixed:
  "concat_parts (PrefixedAnalyticalWordResponse p) w [0, 1] = Inr w \<longleftrightarrow> prefix (or_else p []) w"
proof -
  have "concat_parts (PrefixedAnalyticalWordResponse p) w [0, 1]
        = Inr (or_else p [] @ drop (length (or_else p [])) w)"
    by (simp add: Let_def py_slice_from nonempty_or_nil)
  moreover have "or_else p [] @ drop (length (or_else p [])) w = w \<longleftrightarrow> prefix (or_else p []) w"
    by (metis append_eq_conv_conj prefix_def)
  ultimately show ?thesis by (simp only: sum.inject)
qed

lemma concat_suffixed:
  "concat_parts (SuffixedPronounResponse sf) w [0, 1] = Inr w \<longleftrightarrow> suffix (or_else sf []) w"
proof
  assume "concat_parts (SuffixedPronounResponse sf) w [0, 1] = Inr w"
  then have "py_slice w None (Some (int (length w) - int (length (or_else sf [])))) @ or_else sf [] = w"
    by (simp add: Let_def nonempty_or_nil)
  then show "suffix (or_else sf []) w" by (metis suffixI)
next
  assume h: "suffix (or_else sf []) w"
  then have "length (or_else sf []) \<le> length w" by (rule suffix_length_le)
  with h show "concat_parts (SuffixedPronounResponse sf) w [0, 1] = Inr w"
    by (auto simp: Let_def py_slice_upto suffix_def nonempty_or_nil)
qed

lemma concat_prefixed_suffixed:
  "concat_parts (PrefixedSuffixedMorphemeResponse p sf) w [0, 1, 2] = Inr w \<longleftrightarrow>
   prefix (or_else p []) w \<and> suffix (or_else sf []) w
   \<and> length (or_else p []) + length (or_else sf []) \<le> length w"
proof
  let ?p = "or_else p []" and ?s = "or_else sf []"
  let ?m = "py_slice w (Some (int (length ?p))) (Some (int (length w) - int (length ?s)))"
  assume "concat_parts (PrefixedSuffixedMorphemeResponse p sf) w [0, 1, 2] = Inr w"
  then have e: "?p @ ?m @ ?s = w" by (simp add: Let_def nonempty_or_nil)
  have "prefix ?p w" using e by (metis prefixI)
  moreover have "suffix ?s w" using e by (metis suffixI append_assoc)
  moreover have "length ?p + length ?s \<le> length w"
  proof -
    have "length (?p @ ?m @ ?s) = length w" using e by simp
    then show ?thesis by simp
  qed
  ultimately show "prefix ?p w \<and> suffix ?s w \<and> length ?p + length ?s \<le> length w" by simp
next
  let ?p = "or_else p []" and ?s = "or_else sf []"
  assume h: "prefix ?p w \<and> suffix ?s w \<and> length ?p + length ?s \<le> length w"
  then obtain a where a: "w = ?p @ a" by (auto simp: prefix_def)
  from h obtain b where b: "w = b @ ?s" by (auto simp: suffix_def)
  from h have le: "length ?s \<le> length w" by simp
  have m: "py_slice w (Some (int (length ?p))) (Some (int (length w) - int (length ?s)))
           = drop (length ?p) (take (length w - length ?s) w)"
    using le by (rule py_slice_mid)
  have "take (length w - length ?s) w = b"
    using b by (metis append_eq_conv_conj add_diff_cancel_right' length_append)
  moreover have "prefix ?p b" using a b h
    by (metis add_diff_cancel_right' le_add_diff_inverse2 le_diff_conv length_append
        prefix_length_prefix prefixI le)
  ultimately have "?p @ drop (length ?p) (take (length w - length ?s) w) = b"
    by (metis append_eq_conv_conj prefix_def)
  then have "?p @ drop (length ?p) (take (length w - length ?s) w) @ ?s = w" using b by simp
  then have "?p @ py_slice w (Some (int (length ?p))) (Some (int (length w) - int (length ?s))) @ ?s = w"
    by (simp only: m)
  then show "concat_parts (PrefixedSuffixedMorphemeResponse p sf) w [0, 1, 2] = Inr w"
    by (simp add: Let_def nonempty_or_nil)
qed

text \<open>
  C1, as stated: for every word and every multi-part answer the non-empty parts, in order,
  concatenate to the word. It fails when the answer's prefix is not a prefix of the word:
  prefix \<open>x\<close> on the word \<open>ab\<close> gives the parts \<open>x\<close> and \<open>b\<close>.
\<close>

theorem concat_parts_not_word:
  "concat_parts (PrefixedAnalyticalWordResponse (Some [120])) [97, 98] [0, 1] = Inr [120, 98]
   \<and> concat_parts (PrefixedAnalyticalWordResponse (Some [120])) [97, 98] [0, 1] \<noteq> Inr [97, 98]"
  by (simp add: or_else_def py_slice_def adjust_index_def)

text \<open>
  C1, amended: the non-empty parts of a multi-part answer, taken over its indices in order,
  concatenate to the word exactly when the answer's prefix (absent or empty counting as
  the empty string) is a prefix of the word and its suffix is a suffix of the word, the two
  not overlapping in a prefix-and-suffix answer. The part of a terminal answer is its field,
  whatever the word and the index.
\<close>

theorem concat_parts_reconstructs:
  "(concat_parts (PrefixedAnalyticalWordResponse p) w [0, 1] = Inr w
      \<longleftrightarrow> prefix (or_else p []) w)
   \<and> (concat_parts (SuffixedPronounResponse sf) w [0, 1] = Inr w
      \<longleftrightarrow> suffix (or_else sf []) w)
   \<and> (concat_parts (PrefixedSuffixedMorphemeResponse p sf) w [0, 1, 2] = Inr w
      \<longleftrightarrow> prefix (or_else p []) w \<and> suffix (or_else sf []) w
          \<and> length (or_else p []) + length (or_else sf []) \<le> length w)
   \<and> get_part (CompleteFormResponse c) w i = Inr c
   \<and> get_part (MorphemeTypeResponse m) w i = Inr m"
  using concat_prefixed [of p w] concat_suffixed [of sf w] concat_prefixed_suffixed [of p sf w]
  by simp

text \<open>
  The amended C1 at the word of the specification (U+0721 U+072B U+071F U+071A U+071D U+0722)
  with prefix U+0721 and suffix U+071D U+0722.
\<close>

theorem concat_parts_reconstructs_witness:
  "prefix (or_else (Some [1825]) []) [1825, 1835, 1823, 1818, 1821, 1826]
   \<and> suffix (or_else (Some [1821, 1826]) []) [1825, 1835, 1823, 1818, 1821, 1826]
   \<and> concat_parts (PrefixedSuffixedMorphemeResponse (Some [1825]) (Some [1821, 1826]))
        [1825, 1835, 1823, 1818, 1821, 1826] [0, 1, 2]
      = Inr [1825, 1835, 1823, 1818, 1821, 1826]"
  using concat_parts_reconstructs
    [of "Some [1825]" "[1825, 1835, 1823, 1818, 1821, 1826]" "Some [1821, 1826]"]
  by (simp add: or_else_def suffix_def)

text \<open>
  C9: \<open>get_part\<close> returns a string exactly at the indices of the class's range, whatever
  the word and the fields; the sliced part is a piece of the word (a suffix, a prefix, a
  contiguous run of it), also when a field is longer than the word.
\<close>

theorem get_part_total:
  "(valid_index r index \<longleftrightarrow> (\<exists>part. get_part r word index = Inr part))
   \<and> (\<exists>part. get_part (PrefixedAnalyticalWordResponse p) word 1 = Inr part \<and> suffix part word)
   \<and> (\<exists>part. get_part (SuffixedPronounResponse sf) word 0 = Inr part \<and> prefix part word)
   \<and> (\<exists>part. get_part (PrefixedSuffixedMorphemeResponse p sf) word 1 = Inr part
         \<and> sublist part word)"
proof -
  have "valid_index r index \<longleftrightarrow> (\<exists>part. get_part r word index = Inr part)"
    by (cases r) (auto simp: valid_index_def Let_def)
  moreover have "suffix (py_slice word (Some (int k)) None) word" for k
    by (simp add: py_slice_from suffix_drop)
  ultimately show ?thesis
    by (simp add: Let_def py_slice_sublist py_slice_None_prefix)
qed

text \<open>C9 at a suffix longer than the word: the stop of the slice is negative.\<close>

theorem get_part_total_witness:
  "valid_index (SuffixedPronounResponse (Some [1, 2, 3, 4])) 0
   \<and> get_part (SuffixedPronounResponse (Some [1, 2, 3, 4])) [7, 8, 9] 0 = Inr [7, 8]"
  using get_part_total [of "SuffixedPronounResponse (Some [1, 2, 3, 4])" 0 "[7, 8, 9]"]
  by (simp add: valid_index_def or_else_def py_slice_def adjust_index_def)

section \<open>The walk of a word\<close>

lemma word_depths_append: "word_depths (xs @ ys) = word_depths xs @ word_depths ys"
  by (induction xs rule: word_depths.induct) auto

lemma preorder_sel: "preorder n d = (d, WordTool (response_type n)) # preorders (children n) (d + 1)"
  by (cases n) simp

lemma register_response_messages:
  "register_response rendered q c = (r, q', ps) \<Longrightarrow> prefix (messages q) (messages q')"
  by (auto simp: register_response_def Let_def
      split: if_splits list.splits option.splits attr.splits)

lemma request_effects:
  assumes "request E s t = (r, s')"
  shows "outfile s' = outfile s"
    and "sent s' = sent s @ [(get_messages (queue s), t)]"
    and "prefix (messages (queue s)) (messages (queue s'))"
    and "prefix (console s) (console s')"
  using assms
  by (auto simp: request_def Let_def split: prod.splits sum.splits dest: register_response_messages)

lemma parse_word_unfold:
  "parse_word E s word (Node t cs) k =
     (case request E (ask s t word k) (WordTool t) of
        (Inl e, s3) \<Rightarrow> (Inl e, s3)
      | (Inr payload, s3) \<Rightarrow>
          (case model_validate_json (json_loads E) t payload of
             Inl e \<Rightarrow>
               if renders E payload then
                 (Inl e, s3\<lparr>console := console s3 @ [Payload payload, InvalidJSON]\<rparr>)
               else (Inl MarkupError, s3)
           | Inr res \<Rightarrow>
               parse_children E (s3\<lparr>outfile := outfile s3 @ [AnswerLine (k + 1) res]\<rparr>)
                 res word cs 0 k))"
  by (simp add: ask_def Let_def)

lemma ask_let:
  "(s\<lparr>outfile := outfile s @ [WordLine k word]\<rparr>)
     \<lparr>queue := register_user_message (queue (s\<lparr>outfile := outfile s @ [WordLine k word]\<rparr>))
                 (get_question t word)\<rparr> = ask s t word k"
  by (simp add: ask_def)

declare parse_word.simps [simp del]

lemma walked_refl: "walked s s []"
  by (simp add: walked_def)

lemma get_messages_prefix:
  "prefix (messages q) (messages q') \<Longrightarrow> prefix (get_messages q) (get_messages q')"
  by (simp add: get_messages_def map_mono_prefix)

lemma walked_trans:
  assumes "walked s s1 vs1" and "walked s1 s2 vs2"
  shows "walked s s2 (vs1 @ vs2)"
proof -
  from assms(1) obtain n1 r1 where 1: "outfile s1 = outfile s @ n1" "sent s1 = sent s @ r1"
    "length r1 = length (word_depths n1)" "vs1 = zip (word_depths n1) (map snd r1)"
    "list_all (\<lambda>rq. prefix (get_messages (queue s)) (fst rq)) r1"
    "prefix (messages (queue s)) (messages (queue s1))"
    by (auto simp: walked_def)
  from assms(2) obtain n2 r2 where 2: "outfile s2 = outfile s1 @ n2" "sent s2 = sent s1 @ r2"
    "length r2 = length (word_depths n2)" "vs2 = zip (word_depths n2) (map snd r2)"
    "list_all (\<lambda>rq. prefix (get_messages (queue s1)) (fst rq)) r2"
    "prefix (messages (queue s1)) (messages (queue s2))"
    by (auto simp: walked_def)
  have p: "prefix (get_messages (queue s)) (get_messages (queue s1))"
    using 1(6) by (rule get_messages_prefix)
  have "list_all (\<lambda>rq. prefix (get_messages (queue s)) (fst rq)) r2"
    using 2(5) p by (auto simp: list_all_iff intro: prefix_order.trans)
  then have "list_all (\<lambda>rq. prefix (get_messages (queue s)) (fst rq)) (r1 @ r2)"
    using 1(5) by simp
  moreover have "vs1 @ vs2 = zip (word_depths (n1 @ n2)) (map snd (r1 @ r2))"
    using 1(3,4) 2(4) by (simp add: word_depths_append)
  moreover have "prefix (messages (queue s)) (messages (queue s2))"
    using 1(6) 2(6) by (rule prefix_order.trans)
  ultimately show ?thesis
    unfolding walked_def using 1(1,2,3) 2(1,2,3)
    by (intro exI [of _ "n1 @ n2"] exI [of _ "r1 @ r2"]) (simp add: word_depths_append)
qed

lemma walked_ask:
  assumes "request E (ask s t word k) (WordTool t) = (r, s3)"
  shows "walked s s3 [(k, WordTool t)]"
proof -
  note e = request_effects [OF assms]
  have q: "prefix (messages (queue s)) (messages (queue (ask s t word k)))"
    by (simp add: ask_def register_user_message_def register_message_def)
  have "prefix (messages (queue s)) (messages (queue s3))"
    using q e(3) by (rule prefix_order.trans)
  moreover have "prefix (get_messages (queue s)) (get_messages (queue (ask s t word k)))"
    using q by (rule get_messages_prefix)
  ultimately show ?thesis
    unfolding walked_def using e(1,2)
    by (intro exI [of _ "[WordLine k word]"] exI [of _ "[(get_messages (queue (ask s t word k)), WordTool t)]"])
       (simp add: ask_def)
qed

lemma walked_console: "walked s s' vs \<Longrightarrow> walked s (s'\<lparr>console := c\<rparr>) vs"
  by (simp add: walked_def)

lemma walked_answer:
  "walked s s' vs \<Longrightarrow> walked s (s'\<lparr>outfile := outfile s' @ [AnswerLine d res]\<rparr>) vs"
  unfolding walked_def
  apply (elim exE conjE)
  subgoal for new reqs
    by (intro exI [of _ "new @ [AnswerLine d res]"] exI [of _ reqs]) (simp add: word_depths_append)
  done

lemma parse_walked:
  "parse_word E s word n k = (r, s') \<Longrightarrow>
     \<exists>vs. walked s s' ((k, WordTool (response_type n)) # vs)
          \<and> subseq vs (preorders (children n) (k + 1))"
  "parse_children E s res word cs i k = (r, s') \<Longrightarrow>
     \<exists>vs. walked s s' vs \<and> subseq vs (preorders cs (k + 1))"
proof (induction E s word n k and E s res word cs i k arbitrary: r s' and r s'
    rule: parse_word_parse_children.induct)
  case (1 E s word t cs k)
  obtain r3 s3 where rq: "request E (ask s t word k) (WordTool t) = (r3, s3)"
    by (cases "request E (ask s t word k) (WordTool t)")
  have w3: "walked s s3 [(k, WordTool t)]" using rq by (rule walked_ask)
  show ?case
  proof (cases r3)
    case (Inl e)
    then have "s' = s3" using "1.prems" rq by (simp add: parse_word_unfold)
    then show ?thesis using w3 by (intro exI [of _ "[]"]) simp
  next
    case (Inr payload)
    note r3 = this
    show ?thesis
    proof (cases "model_validate_json (json_loads E) t payload")
      case (Inl e)
      then have "s' = s3\<lparr>console := console s3 @ [Payload payload, InvalidJSON]\<rparr> \<or> s' = s3"
        using "1.prems" rq r3 by (auto simp: parse_word_unfold split: if_splits)
      then show ?thesis using w3 by (intro exI [of _ "[]"]) (auto simp: walked_console)
    next
      case (Inr res)
      let ?s4 = "s3\<lparr>outfile := outfile s3 @ [AnswerLine (k + 1) res]\<rparr>"
      have pc: "parse_children E ?s4 res word cs 0 k = (r, s')"
        using "1.prems" rq r3 Inr by (simp add: parse_word_unfold)
      have rq': "(r3, s3) = request E
          ((s\<lparr>outfile := outfile s @ [WordLine k word]\<rparr>)
             \<lparr>queue := register_user_message (queue (s\<lparr>outfile := outfile s @ [WordLine k word]\<rparr>))
                 (get_question t word)\<rparr>) (WordTool t)"
        using rq by (simp only: ask_let)
      from "1.IH" [OF refl refl rq' r3 Inr pc]
      obtain vs where vs: "walked ?s4 s' vs" "subseq vs (preorders cs (k + 1))" by blast
      have "walked s ?s4 [(k, WordTool t)]" using w3 by (rule walked_answer)
      then have "walked s s' ([(k, WordTool t)] @ vs)" using vs(1) by (rule walked_trans)
      then show ?thesis using vs(2) by (intro exI [of _ vs]) simp
    qed
  qed
next
  case (2 E s res word i k)
  then show ?case by (auto intro: walked_refl)
next
  case (3 E s res word child rest i k)
  show ?case
  proof (cases "get_part res word i")
    case (Inl e)
    then have "s' = s" using "3.prems" by simp
    then show ?thesis by (intro exI [of _ "[]"]) (simp add: walked_refl)
  next
    case (Inr part)
    note gp = this
    show ?thesis
    proof (cases child)
      case None
      then have pc: "parse_children E s res word rest (i + 1) k = (r, s')"
        using "3.prems" gp by simp
      from "3.IH"(1) [OF gp None pc] show ?thesis using None by simp
    next
      case (Some c)
      show ?thesis
      proof (cases "part = []")
        case True
        then have pc: "parse_children E s res word rest (i + 1) k = (r, s')"
          using "3.prems" gp Some by simp
        have ne: "\<not> part \<noteq> []" using True by simp
        from "3.IH"(4) [OF gp Some ne pc]
        obtain vs where vs: "walked s s' vs" "subseq vs (preorders rest (k + 1))" by blast
        have "subseq vs (preorder c (k + 1) @ preorders rest (k + 1))"
          using vs(2) by (rule list_emb_append2)
        then show ?thesis using vs(1) Some by (intro exI [of _ vs]) simp
      next
        case False
        obtain r1 s1 where pw: "parse_word E s part c (k + 1) = (r1, s1)"
          by (cases "parse_word E s part c (k + 1)")
        from "3.IH"(2) [OF gp Some False pw]
        obtain vs1 where vs1: "walked s s1 ((k + 1, WordTool (response_type c)) # vs1)"
          "subseq vs1 (preorders (children c) (k + 1 + 1))" by blast
        have sub1: "subseq ((k + 1, WordTool (response_type c)) # vs1) (preorder c (k + 1))"
          using vs1(2) by (simp add: preorder_sel [of c])
        show ?thesis
        proof (cases r1)
          case (Inl e)
          then have "s' = s1" using "3.prems" gp Some False pw by simp
          moreover have "subseq ((k + 1, WordTool (response_type c)) # vs1)
              (preorder c (k + 1) @ preorders rest (k + 1))"
            using sub1 by (rule list_emb_prefix)
          ultimately show ?thesis using vs1(1) Some
            by (intro exI [of _ "(k + 1, WordTool (response_type c)) # vs1"]) simp
        next
          case (Inr u)
          then have pc: "parse_children E s1 res word rest (i + 1) k = (r, s')"
            using "3.prems" gp Some False pw by simp
          from "3.IH"(3) [OF gp Some False pw [symmetric] Inr pc]
          obtain vs2 where vs2: "walked s1 s' vs2" "subseq vs2 (preorders rest (k + 1))" by blast
          have "walked s s' (((k + 1, WordTool (response_type c)) # vs1) @ vs2)"
            using vs1(1) vs2(1) by (rule walked_trans)
          moreover have "subseq (((k + 1, WordTool (response_type c)) # vs1) @ vs2)
              (preorder c (k + 1) @ preorders rest (k + 1))"
            using sub1 vs2(2) by (rule list_emb_append_mono)
          ultimately show ?thesis using Some
            by (intro exI [of _ "((k + 1, WordTool (response_type c)) # vs1) @ vs2"]) simp
        qed
      qed
    qed
  qed
qed

lemma deeper_Suc: "deeper (Suc k) e \<Longrightarrow> deeper k e"
  by (cases e) auto

lemma list_all_deeper_Suc: "list_all (deeper (Suc k)) xs \<Longrightarrow> list_all (deeper k) xs"
  by (induction xs) (auto dest: deeper_Suc)

lemma parse_outfile:
  "parse_word E s word n k = (r, s') \<Longrightarrow>
     \<exists>more. outfile s' = outfile s @ WordLine k word # more \<and> list_all (deeper k) more"
  "parse_children E s res word cs i k = (r, s') \<Longrightarrow>
     \<exists>more. outfile s' = outfile s @ more \<and> list_all (deeper k) more"
proof (induction E s word n k and E s res word cs i k arbitrary: r s' and r s'
    rule: parse_word_parse_children.induct)
  case (1 E s word t cs k)
  obtain r3 s3 where rq: "request E (ask s t word k) (WordTool t) = (r3, s3)"
    by (cases "request E (ask s t word k) (WordTool t)")
  have o3: "outfile s3 = outfile s @ [WordLine k word]"
    using request_effects(1) [OF rq] by (simp add: ask_def)
  show ?case
  proof (cases r3)
    case (Inl e)
    then have "s' = s3" using "1.prems" rq by (simp add: parse_word_unfold)
    then show ?thesis using o3 by simp
  next
    case (Inr payload)
    note r3 = this
    show ?thesis
    proof (cases "model_validate_json (json_loads E) t payload")
      case (Inl e)
      then have "outfile s' = outfile s3"
        using "1.prems" rq r3 by (auto simp: parse_word_unfold split: if_splits)
      then show ?thesis using o3 by simp
    next
      case (Inr res)
      let ?s4 = "s3\<lparr>outfile := outfile s3 @ [AnswerLine (k + 1) res]\<rparr>"
      have pc: "parse_children E ?s4 res word cs 0 k = (r, s')"
        using "1.prems" rq r3 Inr by (simp add: parse_word_unfold)
      have rq': "(r3, s3) = request E
          ((s\<lparr>outfile := outfile s @ [WordLine k word]\<rparr>)
             \<lparr>queue := register_user_message (queue (s\<lparr>outfile := outfile s @ [WordLine k word]\<rparr>))
                 (get_question t word)\<rparr>) (WordTool t)"
        using rq by (simp only: ask_let)
      from "1.IH" [OF refl refl rq' r3 Inr pc]
      obtain more where more: "outfile s' = outfile ?s4 @ more" "list_all (deeper k) more" by blast
      have "outfile s' = outfile s @ WordLine k word # (AnswerLine (k + 1) res # more)"
        using more(1) o3 by simp
      moreover have "list_all (deeper k) (AnswerLine (k + 1) res # more)" using more(2) by simp
      ultimately show ?thesis by blast
    qed
  qed
next
  case (2 E s res word i k)
  then show ?case by simp
next
  case (3 E s res word child rest i k)
  show ?case
  proof (cases "get_part res word i")
    case (Inl e)
    then have "s' = s" using "3.prems" by simp
    then show ?thesis by simp
  next
    case (Inr part)
    note gp = this
    show ?thesis
    proof (cases child)
      case None
      then have pc: "parse_children E s res word rest (i + 1) k = (r, s')"
        using "3.prems" gp by simp
      from "3.IH"(1) [OF gp None pc] show ?thesis .
    next
      case (Some c)
      show ?thesis
      proof (cases "part = []")
        case True
        then have pc: "parse_children E s res word rest (i + 1) k = (r, s')"
          using "3.prems" gp Some by simp
        have ne: "\<not> part \<noteq> []" using True by simp
        from "3.IH"(4) [OF gp Some ne pc] show ?thesis .
      next
        case False
        obtain r1 s1 where pw: "parse_word E s part c (k + 1) = (r1, s1)"
          by (cases "parse_word E s part c (k + 1)")
        from "3.IH"(2) [OF gp Some False pw]
        obtain m1 where m1: "outfile s1 = outfile s @ WordLine (k + 1) part # m1"
          "list_all (deeper (k + 1)) m1" by blast
        have d1: "list_all (deeper k) (WordLine (k + 1) part # m1)"
          using m1(2) by (simp add: list_all_deeper_Suc)
        show ?thesis
        proof (cases r1)
          case (Inl e)
          then have "s' = s1" using "3.prems" gp Some False pw by simp
          then show ?thesis using m1(1) d1 by blast
        next
          case (Inr u)
          then have pc: "parse_children E s1 res word rest (i + 1) k = (r, s')"
            using "3.prems" gp Some False pw by simp
          from "3.IH"(3) [OF gp Some False pw [symmetric] Inr pc]
          obtain m2 where m2: "outfile s' = outfile s1 @ m2" "list_all (deeper k) m2" by blast
          have "outfile s' = outfile s @ ((WordLine (k + 1) part # m1) @ m2)"
            using m1(1) m2(1) by simp
          moreover have "list_all (deeper k) ((WordLine (k + 1) part # m1) @ m2)"
            using d1 m2(2) by simp
          ultimately show ?thesis by blast
        qed
      qed
    qed
  qed
qed

lemma parse_words_blocks:
  "\<exists>s' bs. parse_words E tree s ws = (Inr (), s') \<and> length bs = length ws
      \<and> outfile s' = outfile s @ concat (map (\<lambda>(w, b). WordLine 0 w # b @ [Blank]) (zip ws bs))
      \<and> list_all (list_all (deeper 0)) bs"
proof (induction ws arbitrary: s)
  case Nil
  show ?case by simp
next
  case (Cons w ws)
  obtain r1 s1 where pw: "parse_word E s w tree 0 = (r1, s1)"
    by (cases "parse_word E s w tree 0")
  from parse_outfile(1) [OF pw]
  obtain b where b: "outfile s1 = outfile s @ WordLine 0 w # b" "list_all (deeper 0) b" by blast
  define s2 where "s2 = (case r1 of Inl e \<Rightarrow> s1\<lparr>console := console s1 @ [SentenceFailed]\<rparr> | Inr u \<Rightarrow> s1)"
  have o2: "outfile s2 = outfile s1" by (simp add: s2_def split: sum.splits)
  have step: "parse_words E tree s (w # ws) = parse_words E tree (s2\<lparr>outfile := outfile s2 @ [Blank]\<rparr>) ws"
    using pw by (simp add: s2_def Let_def split: sum.splits)
  from Cons.IH [of "s2\<lparr>outfile := outfile s2 @ [Blank]\<rparr>"]
  obtain s' bs where ih: "parse_words E tree (s2\<lparr>outfile := outfile s2 @ [Blank]\<rparr>) ws = (Inr (), s')"
    "length bs = length ws"
    "outfile s' = outfile (s2\<lparr>outfile := outfile s2 @ [Blank]\<rparr>)
        @ concat (map (\<lambda>(w, b). WordLine 0 w # b @ [Blank]) (zip ws bs))"
    "list_all (list_all (deeper 0)) bs" by blast
  show ?case
    using step ih b o2
    by (intro exI [of _ s'] exI [of _ "b # bs"]) simp
qed



lemma parse_pair: "parse_word E s word n k = (fst (parse_word E s word n k), snd (parse_word E s word n k))"
  by simp


lemma walked_sent: "walked s s' vs \<Longrightarrow> \<exists>reqs. sent s' = sent s @ reqs"
  by (auto simp: walked_def)

lemma parse_sent_first:
  assumes "parse_word E s word n k = (r, s')"
  shows "\<exists>reqs. sent s' = sent s
      @ (get_messages (register_user_message (queue s) (get_question (response_type n) word)),
         WordTool (response_type n)) # reqs"
proof -
  obtain ty slots where n: "n = Node ty slots" by (cases n)
  obtain r3 s3 where rq: "request E (ask s ty word k) (WordTool ty) = (r3, s3)"
    by (cases "request E (ask s ty word k) (WordTool ty)")
  have s3: "sent s3 = sent s @ [(get_messages (register_user_message (queue s) (get_question ty word)),
      WordTool ty)]"
    using request_effects(2) [OF rq] by (simp add: ask_def)
  show ?thesis
  proof (cases r3)
    case (Inl e)
    then have "s' = s3" using assms rq n by (simp add: parse_word_unfold)
    then show ?thesis using s3 n by simp
  next
    case (Inr payload)
    note r3 = this
    show ?thesis
    proof (cases "model_validate_json (json_loads E) ty payload")
      case (Inl e)
      then have "sent s' = sent s3"
        using assms rq r3 n by (auto simp: parse_word_unfold split: if_splits)
      then show ?thesis using s3 n by simp
    next
      case (Inr res)
      let ?s4 = "s3\<lparr>outfile := outfile s3 @ [AnswerLine (k + 1) res]\<rparr>"
      have "parse_children E ?s4 res word slots 0 k = (r, s')"
        using assms rq r3 Inr n by (simp add: parse_word_unfold)
      from parse_walked(2) [OF this] obtain reqs where "sent s' = sent ?s4 @ reqs"
        by (auto dest: walked_sent)
      then show ?thesis using s3 n by simp
    qed
  qed
qed



lemma words_pair:
  "parse_words E tree s ws = (fst (parse_words E tree s ws), snd (parse_words E tree s ws))"
  by simp

lemma parse_words_sent: "\<exists>reqs. sent (snd (parse_words E tree s ws)) = sent s @ reqs"
proof (induction ws arbitrary: s)
  case Nil
  show ?case by simp
next
  case (Cons w ws)
  obtain r1 s1 where pw: "parse_word E s w tree 0 = (r1, s1)"
    by (cases "parse_word E s w tree 0")
  from parse_walked(1) [OF pw] obtain q1 where q1: "sent s1 = sent s @ q1"
    by (auto dest: walked_sent)
  define s2 where "s2 = (case r1 of Inl e \<Rightarrow> s1\<lparr>console := console s1 @ [SentenceFailed]\<rparr> | Inr u \<Rightarrow> s1)"
  have e: "parse_words E tree s (w # ws) = parse_words E tree (s2\<lparr>outfile := outfile s2 @ [Blank]\<rparr>) ws"
    using pw by (cases r1) (simp_all add: s2_def Let_def)
  have s2: "sent (s2\<lparr>outfile := outfile s2 @ [Blank]\<rparr>) = sent s @ q1"
    using q1 by (cases r1) (simp_all add: s2_def)
  from Cons.IH [of "s2\<lparr>outfile := outfile s2 @ [Blank]\<rparr>"] obtain q2 where
    "sent (snd (parse_words E tree (s2\<lparr>outfile := outfile s2 @ [Blank]\<rparr>) ws))
      = sent (s2\<lparr>outfile := outfile s2 @ [Blank]\<rparr>) @ q2" by blast
  then show ?case using e s2 by simp
qed

lemma parse_words_first_request:
  "\<exists>reqs. sent (snd (parse_words E tree s (w # ws)))
     = sent s @ (get_messages (register_user_message (queue s) (get_question (response_type tree) w)),
                 WordTool (response_type tree)) # reqs"
proof -
  obtain r1 s1 where pw: "parse_word E s w tree 0 = (r1, s1)"
    by (cases "parse_word E s w tree 0")
  from parse_sent_first [OF pw] obtain q1 where q1: "sent s1 = sent s
      @ (get_messages (register_user_message (queue s) (get_question (response_type tree) w)),
         WordTool (response_type tree)) # q1" by blast
  define s2 where "s2 = (case r1 of Inl e \<Rightarrow> s1\<lparr>console := console s1 @ [SentenceFailed]\<rparr> | Inr u \<Rightarrow> s1)"
  have e: "parse_words E tree s (w # ws) = parse_words E tree (s2\<lparr>outfile := outfile s2 @ [Blank]\<rparr>) ws"
    using pw by (cases r1) (simp_all add: s2_def Let_def)
  have s2: "sent (s2\<lparr>outfile := outfile s2 @ [Blank]\<rparr>) = sent s1"
    by (cases r1) (simp_all add: s2_def)
  obtain q2 where "sent (snd (parse_words E tree (s2\<lparr>outfile := outfile s2 @ [Blank]\<rparr>) ws))
      = sent (s2\<lparr>outfile := outfile s2 @ [Blank]\<rparr>) @ q2"
    using parse_words_sent by blast
  then show ?thesis using e s2 q1 by simp
qed

section \<open>The conversation and the shape of a walk\<close>

lemma register_user_message_messages:
  "messages (register_user_message q c)
   = messages q @ [Message USER (lit ''Text: '' @ [34, 34, 34, 10] @ c @ [10, 34, 34, 34]) None]"
  by (simp add: register_user_message_def register_message_def)

lemma inj_cast: "inj cast"
proof (rule injI)
  fix x y assume "cast x = cast y"
  then show "x = y" by (cases x; cases y) auto
qed

lemma request_pair: "request E s t = (fst (request E s t), snd (request E s t))"
  by simp

text \<open>
  C5: each operation of the conversation appends and nothing else: the entries before it
  stay, in their order, at the front. The messages of a request are the entries of the
  conversation at that moment, all of them and in their order, each cast to its
  dictionary (and the cast loses nothing). A whole walk only extends the conversation, and
  each of its requests carries the conversation as it stood at the start of the walk
  followed by what was appended since.
\<close>

theorem conversation_append_only:
  "messages (register_system_message q c) = messages q @ [Message SYSTEM c None]
   \<and> messages (register_user_message q c)
       = messages q @ [Message USER (lit ''Text: '' @ [34, 34, 34, 10] @ c @ [10, 34, 34, 34]) None]
   \<and> prefix (messages q) (messages (fst (snd (register_response rendered q completion))))
   \<and> get_messages q = map cast (messages q)
   \<and> inj cast
   \<and> sent (snd (request E s t)) = sent s @ [(map cast (messages (queue s)), t)]
   \<and> prefix (messages (queue s)) (messages (queue (snd (request E s t))))
   \<and> (\<exists>vs. walked s (snd (parse_word E s word n k)) vs)"
proof -
  have a: "messages (register_system_message q c) = messages q @ [Message SYSTEM c None]"
    by (simp add: register_system_message_def register_message_def)
  have b: "prefix (messages q) (messages (fst (snd (register_response rendered q completion))))"
    by (cases "register_response rendered q completion") (auto dest: register_response_messages)
  have c: "sent (snd (request E s t)) = sent s @ [(map cast (messages (queue s)), t)]"
    using request_effects(2) [OF request_pair] by (simp add: get_messages_def)
  have d: "prefix (messages (queue s)) (messages (queue (snd (request E s t))))"
    using request_effects(3) [OF request_pair] .
  have e: "\<exists>vs. walked s (snd (parse_word E s word n k)) vs"
    using parse_walked(1) [of E s word n k "fst (parse_word E s word n k)" "snd (parse_word E s word n k)"]
    by auto
  show ?thesis
    using a b c d e register_user_message_messages inj_cast by (simp add: get_messages_def)
qed

lemma parse_sentence_unfold:
  "parse_sentence_with tree E s sentence =
     (case request E (begin_sentence E s sentence) ListWords of
        (Inl e, s3) \<Rightarrow> (Inl e, s3)
      | (Inr payload, s3) \<Rightarrow>
          (case list_words_validate_json (json_loads E) payload of
             Inl e \<Rightarrow>
               if renders E payload then
                 parse_words E tree
                   (s3\<lparr>console := console s3 @ [Payload payload, InvalidJSON]\<rparr>) []
               else (Inl MarkupError, s3)
           | Inr words \<Rightarrow> parse_words E tree s3 words))"
  by (simp add: parse_sentence_with_def begin_sentence_def Let_def)

lemma preorder_depth:
  "v \<in> set (preorder n d) \<Longrightarrow> fst v \<le> d + height n"
  "v \<in> set (preorders cs d) \<Longrightarrow> fst v < d + heights cs"
  by (induction n d and cs d rule: preorder_preorders.induct) auto

lemma subseq_depth:
  assumes "subseq vs (preorder n d)"
  shows "list_all (\<lambda>v. fst v \<le> d + height n) vs"
proof -
  have "set vs \<subseteq> set (preorder n d)" using assms by (auto dest: list_emb_set)
  then show ?thesis using preorder_depth(1) [of _ n d] by (auto simp: list_all_iff)
qed

lemma preorder_response_tree:
  "preorder response_tree 0 =
     [(0, WordTool PrefixedAnalyticalWord), (1, WordTool SuffixedPronoun),
      (2, WordTool CompleteForm), (3, WordTool PrefixedSuffixedMorpheme),
      (4, WordTool MorphemeType), (4, WordTool MorphemeType), (4, WordTool MorphemeType),
      (2, WordTool CompleteForm)]"
  by (simp add: response_tree_def)

lemma height_response_tree: "height response_tree = 4"
  by (simp add: response_tree_def)

text \<open>
  C8: the walk of a word over the authored tree returns, whatever the service and the
  parser answer. The nodes it visits, with their depths, form a subsequence of the
  preorder listing of the tree, so children are visited in the order of their slots; no
  visit is deeper than the height of the tree, which is 4; and at most 8 questions are
  asked.
\<close>

theorem walk_bounded:
  "\<exists>r s' vs. parse_word E s word response_tree 0 = (r, s') \<and> walked s s' vs
      \<and> subseq vs (preorder response_tree 0)
      \<and> preorder response_tree 0 =
          [(0, WordTool PrefixedAnalyticalWord), (1, WordTool SuffixedPronoun),
           (2, WordTool CompleteForm), (3, WordTool PrefixedSuffixedMorpheme),
           (4, WordTool MorphemeType), (4, WordTool MorphemeType), (4, WordTool MorphemeType),
           (2, WordTool CompleteForm)]
      \<and> list_all (\<lambda>v. fst v \<le> height response_tree) vs
      \<and> height response_tree = 4
      \<and> length vs \<le> 8"
proof -
  obtain r s' where pw: "parse_word E s word response_tree 0 = (r, s')"
    by (cases "parse_word E s word response_tree 0")
  from parse_walked(1) [OF pw]
  obtain vs0 where vs0: "walked s s' ((0, WordTool (response_type response_tree)) # vs0)"
    "subseq vs0 (preorders (children response_tree) (0 + 1))" by blast
  let ?vs = "(0, WordTool (response_type response_tree)) # vs0"
  have sub: "subseq ?vs (preorder response_tree 0)"
    using vs0(2) by (simp add: preorder_sel [of response_tree])
  have "list_all (\<lambda>v. fst v \<le> 0 + height response_tree) ?vs" using sub by (rule subseq_depth)
  then have dep: "list_all (\<lambda>v. fst v \<le> height response_tree) ?vs" by simp
  have "length ?vs \<le> length (preorder response_tree 0)" using sub by (rule list_emb_length)
  then have len: "length ?vs \<le> 8" by (simp only: preorder_response_tree) simp
  show ?thesis
    using pw vs0(1) sub dep len preorder_response_tree height_response_tree by blast
qed

section \<open>The worked example of the system message\<close>

lemma after_answer_fields:
  "outfile (after_answer s ty word k res) = outfile s @ [WordLine k word, AnswerLine (k + 1) res]"
  "length (sent (after_answer s ty word k res)) = Suc (length (sent s))"
  "map snd (sent (after_answer s ty word k res)) = map snd (sent s) @ [WordTool ty]"
  "console (after_answer s ty word k res) = console s"
  by (simp_all add: after_answer_def)

lemma scripted_step:
  assumes "length (sent s) < length script" and "fst (script ! length (sent s)) = 200"
    and "model_validate ty (snd (script ! length (sent s))) = Inr res"
  shows "parse_word (scripted script) s word (Node ty slots) k
         = parse_children (scripted script) (after_answer s ty word k res) res word slots 0 k"
proof -
  define s3 where "s3 =
         (ask s ty word k)\<lparr>sent := sent s @ [(get_messages (queue (ask s ty word k)), WordTool ty)],
            queue := \<lparr>messages = messages (queue (ask s ty word k))
                    @ [Message ASSISTANT [] (Some [ToolCall [] [] [Suc (length (sent s))]]),
                       ToolMessage TOOL [] None [] []],
                 argument = [Suc (length (sent s))]\<rparr>\<rparr>"
  have rq: "request (scripted script) (ask s ty word k) (WordTool ty)
      = (Inr [Suc (length (sent s))], s3)"
    using assms(1,2)
    by (simp add: s3_def request_def scripted_def register_response_def Let_def ask_def)
  have v: "model_validate_json (json_loads (scripted script)) ty [Suc (length (sent s))] = Inr res"
    using assms(1,3) by (simp add: model_validate_json_def scripted_def)
  have e: "s3\<lparr>outfile := outfile s3 @ [AnswerLine (k + 1) res]\<rparr> = after_answer s ty word k res"
    by (simp add: s3_def after_answer_def ask_def)
  show ?thesis
    by (simp only: parse_word_unfold rq v prod.case sum.case e)
qed

lemma scripted_walk_step:
  assumes "length (sent s) < length script" and "fst (script ! length (sent s)) = 200"
    and "model_validate ty (snd (script ! length (sent s)))
         = Inr (projr (model_validate ty (snd (script ! length (sent s)))))"
  shows "parse_word (scripted script) s word (Node ty slots) k
         = parse_children (scripted script)
             (after_answer s ty word k (projr (model_validate ty (snd (script ! length (sent s))))))
             (projr (model_validate ty (snd (script ! length (sent s))))) word slots 0 k"
  using assms by (rule scripted_step)

lemma full_walk:
  "fst (parse_word (scripted full_script) start [1816, 1825, 1835, 1823, 1818, 1821, 1826, 1826]
          response_tree 0) = Inr ()
   \<and> outfile (snd (parse_word (scripted full_script) start
          [1816, 1825, 1835, 1823, 1818, 1821, 1826, 1826] response_tree 0))
     = [WordLine 0 [1816, 1825, 1835, 1823, 1818, 1821, 1826, 1826],
        AnswerLine 1 (PrefixedAnalyticalWordResponse (Some [1816])),
        WordLine 1 [1825, 1835, 1823, 1818, 1821, 1826, 1826],
        AnswerLine 2 (SuffixedPronounResponse (Some [1826, 1826])),
        WordLine 2 [1825, 1835, 1823, 1818, 1821],
        AnswerLine 3 (CompleteFormResponse [1825, 1835, 1823, 1818, 1821, 1826]),
        WordLine 3 [1825, 1835, 1823, 1818, 1821, 1826],
        AnswerLine 4 (PrefixedSuffixedMorphemeResponse (Some [1825]) (Some [1821, 1826])),
        WordLine 4 [1825],
        AnswerLine 5 (MorphemeTypeResponse (lit ''performative'')),
        WordLine 4 [1835, 1823, 1818],
        AnswerLine 5 (MorphemeTypeResponse (lit ''verbal ending'')),
        WordLine 4 [1821, 1826],
        AnswerLine 5 (MorphemeTypeResponse (lit ''nominal ending'')),
        WordLine 2 [1826, 1826],
        AnswerLine 3 (CompleteFormResponse [1818, 1826, 1826])]
   \<and> map snd (sent (snd (parse_word (scripted full_script) start
          [1816, 1825, 1835, 1823, 1818, 1821, 1826, 1826] response_tree 0)))
     = [WordTool PrefixedAnalyticalWord, WordTool SuffixedPronoun, WordTool CompleteForm,
        WordTool PrefixedSuffixedMorpheme, WordTool MorphemeType, WordTool MorphemeType,
        WordTool MorphemeType, WordTool CompleteForm]"
  by (simp add: response_tree_def scripted_walk_step after_answer_fields start_def full_script_def
      known_keys_def field_def or_else_def py_slice_def adjust_index_def lit_def)

text \<open>
  C8 at the worked example: the walk returns normally, visits all eight nodes of the
  authored tree in preorder, and reaches depth 4.
\<close>

theorem walk_bounded_witness:
  "fst (parse_word (scripted full_script) start [1816, 1825, 1835, 1823, 1818, 1821, 1826, 1826]
          response_tree 0) = Inr ()
   \<and> walked start
        (snd (parse_word (scripted full_script) start
                [1816, 1825, 1835, 1823, 1818, 1821, 1826, 1826] response_tree 0))
        (preorder response_tree 0)
   \<and> word_depths (outfile (snd (parse_word (scripted full_script) start
          [1816, 1825, 1835, 1823, 1818, 1821, 1826, 1826] response_tree 0)))
       = [0, 1, 2, 3, 4, 4, 4, 2]"
proof -
  let ?w = "[1816, 1825, 1835, 1823, 1818, 1821, 1826, 1826]"
  let ?s' = "snd (parse_word (scripted full_script) start ?w response_tree 0)"
  from walk_bounded [of "scripted full_script" start ?w]
  obtain vs where w: "walked start ?s' vs" by auto
  then obtain new reqs where n: "outfile ?s' = outfile start @ new" "sent ?s' = sent start @ reqs"
    "vs = zip (word_depths new) (map snd reqs)"
    by (auto simp: walked_def)
  have "new = outfile ?s'" and "reqs = sent ?s'" using n(1,2) by (simp_all add: start_def)
  then have "vs = zip (word_depths (outfile ?s')) (map snd (sent ?s'))" using n(3) by simp
  then have "vs = preorder response_tree 0"
    by (simp add: full_walk preorder_response_tree)
  then show ?thesis using w full_walk by simp
qed

section \<open>Failures of a request, of one word and of the word list\<close>

lemmas run_defs =
  parse_word.simps scripted_def start_def request_def register_response_def Let_def
  model_validate_json_def list_words_validate_json_def MessageQueue_def
  register_system_message_def register_user_message_def register_message_def get_messages_def
  known_keys_def field_def or_else_def py_slice_def adjust_index_def
  markup_closes_def tag_start_def

lemma parse_words_failed:
  "parse_word E s word tree 0 = (Inl e, s1) \<Longrightarrow>
   parse_words E tree s (word # rest)
   = parse_words E tree (s1\<lparr>console := console s1 @ [SentenceFailed],
                            outfile := outfile s1 @ [Blank]\<rparr>) rest"
  by (simp add: Let_def)

lemmas fixed_defs = run_defs fixed_service_def ask_def lit_def

lemma register_response_failed:
  "status_code c \<noteq> 200 \<Longrightarrow> rendered (printed_text (RequestError (code c) (message c))) \<Longrightarrow>
   register_response rendered q c
   = (Inr (), q\<lparr>argument := []\<rparr>, [RequestError (code c) (message c)])"
  by (simp add: register_response_def)

lemma unvalidated_list_when_rendered:
  "request E (begin_sentence E s sentence) ListWords = (Inr payload, s3) \<Longrightarrow>
   list_words_validate_json (json_loads E) payload = Inl e \<Longrightarrow> renders E payload \<Longrightarrow>
   parse_sentence_with tree E s sentence
   = (Inr (), s3\<lparr>console := console s3 @ [Payload payload, InvalidJSON]\<rparr>)"
  by (simp add: parse_sentence_unfold)

text \<open>
  C10: when the payload of a word does not validate, \<open>parse_word\<close> ends with an
  exception: the validation error, after the payload and the warning were printed, or the
  \<open>MarkupError\<close> of the print of the payload. What it did before stays. The \<open>Word:\<close>
  line is its only write (no answer line follows); the conversation is the one the
  request left, with the question and, after it, the entries of the reply; the request
  stays sent. The driver goes on with the next word from that state, and the request of
  the next word carries that conversation followed by the next question.
\<close>

theorem validation_failure_keeps_effects:
  assumes rq: "request E (ask s ty word k) (WordTool ty) = (Inr payload, s3)"
    and v: "model_validate_json (json_loads E) ty payload = Inl e"
  shows "parse_word E s word (Node ty slots) k
         = (if renders E payload
            then (Inl e, s3\<lparr>console := console s3 @ [Payload payload, InvalidJSON]\<rparr>)
            else (Inl MarkupError, s3))
   \<and> (\<exists>e'. fst (parse_word E s word (Node ty slots) k) = Inl e')
   \<and> outfile (snd (parse_word E s word (Node ty slots) k)) = outfile s @ [WordLine k word]
   \<and> queue (snd (parse_word E s word (Node ty slots) k)) = queue s3
   \<and> (\<exists>resp. messages (queue s3)
        = messages (queue s)
          @ Message USER (lit ''Text: '' @ [34, 34, 34, 10] @ get_question ty word @ [10, 34, 34, 34]) None
          # resp)
   \<and> sent (snd (parse_word E s word (Node ty slots) k))
       = sent s @ [(get_messages (register_user_message (queue s) (get_question ty word)), WordTool ty)]
   \<and> (k = 0 \<longrightarrow>
        (\<exists>s4. parse_words E (Node ty slots) s (word # rest) = parse_words E (Node ty slots) s4 rest
           \<and> outfile s4 = outfile s @ [WordLine 0 word, Blank]
           \<and> queue s4 = queue s3 \<and> sent s4 = sent s3)
        \<and> (\<exists>reqs. sent (snd (parse_words E (Node ty slots) s (word # next_word # rest)))
              = sent s3 @ (get_messages (register_user_message (queue s3) (get_question ty next_word)),
                           WordTool ty) # reqs))"
proof -
  let ?p = "parse_word E s word (Node ty slots) k"
  let ?tree = "Node ty slots"
  have a: "?p = (if renders E payload
            then (Inl e, s3\<lparr>console := console s3 @ [Payload payload, InvalidJSON]\<rparr>)
            else (Inl MarkupError, s3))"
    using rq v by (simp add: parse_word_unfold)
  have b: "\<exists>e'. fst ?p = Inl e'" using a by simp
  have o3: "outfile s3 = outfile s @ [WordLine k word]"
    using request_effects(1) [OF rq] by (simp add: ask_def)
  have c: "outfile (snd ?p) = outfile s @ [WordLine k word]" using a o3 by simp
  have d: "queue (snd ?p) = queue s3" using a by simp
  have "prefix (messages (queue (ask s ty word k))) (messages (queue s3))"
    using request_effects(3) [OF rq] .
  then obtain resp where "messages (queue s3) = messages (queue (ask s ty word k)) @ resp"
    by (auto simp: prefix_def)
  then have f: "\<exists>resp. messages (queue s3)
        = messages (queue s)
          @ Message USER (lit ''Text: '' @ [34, 34, 34, 10] @ get_question ty word @ [10, 34, 34, 34]) None
          # resp"
    by (simp add: ask_def register_user_message_messages)
  have q3: "sent s3 = sent s @ [(get_messages (register_user_message (queue s) (get_question ty word)), WordTool ty)]"
    using request_effects(2) [OF rq] by (simp add: ask_def)
  have g: "sent (snd ?p) = sent s @ [(get_messages (register_user_message (queue s) (get_question ty word)), WordTool ty)]"
    using a q3 by simp
  have h: "k = 0 \<longrightarrow>
        (\<exists>s4. parse_words E ?tree s (word # rest) = parse_words E ?tree s4 rest
           \<and> outfile s4 = outfile s @ [WordLine 0 word, Blank]
           \<and> queue s4 = queue s3 \<and> sent s4 = sent s3)
        \<and> (\<exists>reqs. sent (snd (parse_words E ?tree s (word # next_word # rest)))
              = sent s3 @ (get_messages (register_user_message (queue s3) (get_question ty next_word)),
                           WordTool ty) # reqs)"
  proof
    assume k: "k = 0"
    obtain e' where e': "parse_word E s word ?tree 0 = (Inl e', snd ?p)"
      using b k by (cases ?p) auto
    let ?s4 = "(snd ?p)\<lparr>console := console (snd ?p) @ [SentenceFailed],
                          outfile := outfile (snd ?p) @ [Blank]\<rparr>"
    have st: "parse_words E ?tree s (word # ws) = parse_words E ?tree ?s4 ws" for ws
      using parse_words_failed [OF e'] .
    have f4: "outfile ?s4 = outfile s @ [WordLine 0 word, Blank]" "queue ?s4 = queue s3"
      "sent ?s4 = sent s3"
      using c d g q3 k by simp_all
    have one: "\<exists>s4. parse_words E ?tree s (word # rest) = parse_words E ?tree s4 rest
           \<and> outfile s4 = outfile s @ [WordLine 0 word, Blank]
           \<and> queue s4 = queue s3 \<and> sent s4 = sent s3"
      using st [of rest] f4 by blast
    have two: "\<exists>reqs. sent (snd (parse_words E ?tree s (word # next_word # rest)))
              = sent s3 @ (get_messages (register_user_message (queue s3) (get_question ty next_word)),
                           WordTool ty) # reqs"
      using parse_words_first_request [of E ?tree ?s4 next_word rest] st [of "next_word # rest"] f4
      by simp
    show "(\<exists>s4. parse_words E ?tree s (word # rest) = parse_words E ?tree s4 rest
           \<and> outfile s4 = outfile s @ [WordLine 0 word, Blank]
           \<and> queue s4 = queue s3 \<and> sent s4 = sent s3)
        \<and> (\<exists>reqs. sent (snd (parse_words E ?tree s (word # next_word # rest)))
              = sent s3 @ (get_messages (register_user_message (queue s3) (get_question ty next_word)),
                           WordTool ty) # reqs)"
      using one two by (rule conjI)
  qed
  show ?thesis using a b c d f g h by (intro conjI)
qed

text \<open>
  C10 at two replies, both with status 200: one whose payload reads as the JSON value
  \<open>null\<close>, which is printed with the warning, and one whose payload is \<open>[/]\<close>, whose print
  raises. In both the \<open>Word:\<close> line and the three entries of the conversation stay.
\<close>

theorem validation_failure_keeps_effects_witness:
  "fst (request (scripted [(200, JNull)]) (ask start CompleteForm [1, 2] 0) (WordTool CompleteForm))
     = Inr [1]
   \<and> model_validate_json (json_loads (scripted [(200, JNull)])) CompleteForm [1]
       = Inl ValidationError
   \<and> renders (scripted [(200, JNull)]) [1]
   \<and> parse_word (scripted [(200, JNull)]) start [1, 2] (Node CompleteForm []) 0
       = (Inl ValidationError,
          (snd (request (scripted [(200, JNull)]) (ask start CompleteForm [1, 2] 0)
                  (WordTool CompleteForm)))
          \<lparr>console := [Payload [1], InvalidJSON]\<rparr>)
   \<and> outfile (snd (parse_word (scripted [(200, JNull)]) start [1, 2] (Node CompleteForm []) 0))
       = [WordLine 0 [1, 2]]
   \<and> length (messages (queue (snd (parse_word (scripted [(200, JNull)]) start [1, 2]
                (Node CompleteForm []) 0)))) = 3
   \<and> outfile (snd (parse_words (scripted [(200, JNull)]) (Node CompleteForm []) start [[1, 2]]))
       = [WordLine 0 [1, 2], Blank]
   \<and> fst (request (fixed_service 200 [] (lit ''[/]'')) (ask start CompleteForm [1, 2] 0)
          (WordTool CompleteForm)) = Inr (lit ''[/]'')
   \<and> model_validate_json (json_loads (fixed_service 200 [] (lit ''[/]''))) CompleteForm (lit ''[/]'')
       = Inl ValidationError
   \<and> \<not> renders (fixed_service 200 [] (lit ''[/]'')) (lit ''[/]'')
   \<and> parse_word (fixed_service 200 [] (lit ''[/]'')) start [1, 2] (Node CompleteForm []) 0
       = (Inl MarkupError,
          snd (request (fixed_service 200 [] (lit ''[/]'')) (ask start CompleteForm [1, 2] 0)
                 (WordTool CompleteForm)))
   \<and> outfile (snd (parse_word (fixed_service 200 [] (lit ''[/]'')) start [1, 2]
                (Node CompleteForm []) 0)) = [WordLine 0 [1, 2]]
   \<and> console (snd (parse_word (fixed_service 200 [] (lit ''[/]'')) start [1, 2]
                (Node CompleteForm []) 0)) = []
   \<and> length (messages (queue (snd (parse_word (fixed_service 200 [] (lit ''[/]'')) start [1, 2]
                (Node CompleteForm []) 0)))) = 3"
proof -
  let ?E = "scripted [(200, JNull)]"
  let ?F = "fixed_service 200 [] (lit ''[/]'')"
  let ?a = "ask start CompleteForm [1, 2] 0"
  let ?s3 = "snd (request ?E ?a (WordTool CompleteForm))"
  let ?t3 = "snd (request ?F ?a (WordTool CompleteForm))"
  have r1: "fst (request ?E ?a (WordTool CompleteForm)) = Inr [1]"
    by (simp add: fixed_defs)
  have rq1: "request ?E ?a (WordTool CompleteForm) = (Inr [1], ?s3)"
    using r1 by (simp add: prod_eq_iff)
  have v1: "model_validate_json (json_loads ?E) CompleteForm [1] = Inl ValidationError"
    by (simp add: fixed_defs)
  have m1: "renders ?E [1]" by (simp add: fixed_defs)
  have c1: "console ?s3 = []" by (simp add: fixed_defs)
  have l1: "length (messages (queue ?s3)) = 3" by (simp add: fixed_defs)
  have r2: "fst (request ?F ?a (WordTool CompleteForm)) = Inr (lit ''[/]'')"
    by (simp add: fixed_defs)
  have rq2: "request ?F ?a (WordTool CompleteForm) = (Inr (lit ''[/]''), ?t3)"
    using r2 by (simp add: prod_eq_iff)
  have v2: "model_validate_json (json_loads ?F) CompleteForm (lit ''[/]'') = Inl ValidationError"
    by (simp add: fixed_defs)
  have m2: "\<not> renders ?F (lit ''[/]'')" by (simp add: fixed_defs)
  have c2: "console ?t3 = []" by (simp add: fixed_defs)
  have l2: "length (messages (queue ?t3)) = 3" by (simp add: fixed_defs)
  have pw: "outfile (snd (parse_words ?E (Node CompleteForm []) start [[1, 2]]))
      = [WordLine 0 [1, 2], Blank]"
    by (simp add: fixed_defs)
  have o: "outfile start = []" by (simp add: start_def)
  note A = validation_failure_keeps_effects [OF rq1 v1, of "[]" "[]" "[3]"]
  note B = validation_failure_keeps_effects [OF rq2 v2, of "[]" "[]" "[3]"]
  have a1: "parse_word ?E start [1, 2] (Node CompleteForm []) 0
      = (Inl ValidationError, ?s3\<lparr>console := [Payload [1], InvalidJSON]\<rparr>)"
    using A [THEN conjunct1] m1 c1 by simp
  have a2: "outfile (snd (parse_word ?E start [1, 2] (Node CompleteForm []) 0)) = [WordLine 0 [1, 2]]"
    using A [THEN conjunct2, THEN conjunct2, THEN conjunct1] o by simp
  have a3: "length (messages (queue (snd (parse_word ?E start [1, 2] (Node CompleteForm []) 0)))) = 3"
    using A [THEN conjunct2, THEN conjunct2, THEN conjunct2, THEN conjunct1] l1 by simp
  have b1: "parse_word ?F start [1, 2] (Node CompleteForm []) 0 = (Inl MarkupError, ?t3)"
    using B [THEN conjunct1] m2 by simp
  have b2: "outfile (snd (parse_word ?F start [1, 2] (Node CompleteForm []) 0)) = [WordLine 0 [1, 2]]"
    using B [THEN conjunct2, THEN conjunct2, THEN conjunct1] o by simp
  have b3: "console (snd (parse_word ?F start [1, 2] (Node CompleteForm []) 0)) = []"
    using b1 c2 by simp
  have b4: "length (messages (queue (snd (parse_word ?F start [1, 2] (Node CompleteForm []) 0)))) = 3"
    using B [THEN conjunct2, THEN conjunct2, THEN conjunct2, THEN conjunct1] l2 by simp
  show ?thesis
    using r1 v1 m1 a1 a2 a3 pw r2 v2 m2 b1 b2 b3 b4 by (intro conjI)
qed

text \<open>
  C7 at a failing input: the service answers with status 500 and the message \<open>[/]\<close>. The
  text of the warning then ends with two closing tags, and the second has nothing to
  close: \<open>print\<close> raises \<open>MarkupError\<close>, before \<open>self.argument = ''\<close> is reached. So
  \<open>register_response\<close> raises, the payload keeps its old value, nothing is shown, and what
  leaves \<open>parse_word\<close> and \<open>parse_sentence\<close> is that exception and not a validation
  failure: raised by the request of the word list, it ends the run.
\<close>

theorem refused_warning_keeps_payload:
  "\<not> markup_closes (printed_text (RequestError [] (lit ''[/]'')))
   \<and> register_response markup_closes \<lparr>messages = [], argument = [7]\<rparr>
        \<lparr>status_code = 500, code = [], message = lit ''[/]'', choices = []\<rparr>
      = (Inl MarkupError, \<lparr>messages = [], argument = [7]\<rparr>, [])
   \<and> fst (request (fixed_service 500 (lit ''[/]'') []) (ask start CompleteForm [1, 2] 0)
          (WordTool CompleteForm)) = Inl MarkupError
   \<and> fst (parse_word (fixed_service 500 (lit ''[/]'') []) start [1, 2] (Node CompleteForm []) 0)
       = Inl MarkupError
   \<and> console (snd (parse_word (fixed_service 500 (lit ''[/]'') []) start [1, 2]
                     (Node CompleteForm []) 0)) = []
   \<and> fst (parse_sentence (fixed_service 500 (lit ''[/]'') []) start [7]) = Inl MarkupError
   \<and> fst (parse_sentences (fixed_service 500 (lit ''[/]'') []) start [[7], [8]]) = Inl MarkupError
   \<and> outfile (snd (parse_sentences (fixed_service 500 (lit ''[/]'') []) start [[7], [8]]))
       = [SentenceLine [7]]"
  by (simp add: fixed_defs parse_sentence_def parse_sentence_with_def)

text \<open>
  C4 at a failing input: the request for the word list is answered, with status 200, by the
  payload \<open>[/]\<close>. It is not JSON, so validation fails; the handler prints the payload
  first, and that print raises \<open>MarkupError\<close> inside the handler. The exception leaves
  \<open>parse_sentence\<close> and \<open>parse\<close>: no warning is printed, the sentence is not taken to
  have no words, and the second sentence is never begun.
\<close>

theorem refused_payload_aborts_run:
  "list_words_validate_json (json_loads (fixed_service 200 [] (lit ''[/]''))) (lit ''[/]'')
     = Inl ValidationError
   \<and> \<not> renders (fixed_service 200 [] (lit ''[/]'')) (lit ''[/]'')
   \<and> fst (request (fixed_service 200 [] (lit ''[/]''))
          (begin_sentence (fixed_service 200 [] (lit ''[/]'')) start [7]) ListWords)
       = Inr (lit ''[/]'')
   \<and> fst (parse_sentence (fixed_service 200 [] (lit ''[/]'')) start [7]) = Inl MarkupError
   \<and> console (snd (parse_sentence (fixed_service 200 [] (lit ''[/]'')) start [7])) = []
   \<and> fst (parse_sentences (fixed_service 200 [] (lit ''[/]'')) start [[7], [8]]) = Inl MarkupError
   \<and> outfile (snd (parse_sentences (fixed_service 200 [] (lit ''[/]'')) start [[7], [8]]))
       = [SentenceLine [7]]
   \<and> length (sent (snd (parse_sentences (fixed_service 200 [] (lit ''[/]'')) start [[7], [8]]))) = 1"
  by (simp add: fixed_defs parse_sentence_def parse_sentence_with_def begin_sentence_def)

section \<open>The loop over the child slots\<close>




section \<open>Indices out of range\<close>

lemma model_validate_class: "model_validate ty j = Inr res \<Longrightarrow> class_of res = ty"
  by (cases ty; cases j) (auto split: if_splits option.splits)

lemma model_validate_only_ValidationError: "model_validate ty j = Inl e \<Longrightarrow> e = ValidationError"
  by (cases ty; cases j) (auto split: if_splits option.splits)

lemma validate_only_ValidationError:
  "model_validate_json loads ty payload = Inl e \<Longrightarrow> e = ValidationError"
  by (auto simp: model_validate_json_def split: option.splits dest: model_validate_only_ValidationError)

lemma validate_class:
  "model_validate_json loads ty payload = Inr res \<Longrightarrow> class_of res = ty"
  by (auto simp: model_validate_json_def split: option.splits dest: model_validate_class)

lemma fits_valid:
  "fits (class_of res) n \<Longrightarrow> 0 \<le> i \<Longrightarrow> i < int n \<Longrightarrow> valid_index res i"
  by (cases res) (auto simp: valid_index_def)

lemma get_part_raises:
  "\<not> valid_index res i \<Longrightarrow> get_part res word i = Inl ValueError"
  by (cases res) (auto simp: valid_index_def Let_def)

lemma get_part_valid: "valid_index res i \<Longrightarrow> \<exists>part. get_part res word i = Inr part"
  by (cases res) (auto simp: valid_index_def Let_def)

lemma request_not_ValueError: "request E s t = (Inl e, s') \<Longrightarrow> e \<noteq> ValueError"
  by (auto simp: request_def register_response_def Let_def
      split: prod.splits sum.splits if_splits list.splits option.splits attr.splits)

lemma parse_no_ValueError:
  "parse_word E s word n k = (r, s') \<Longrightarrow> well_shaped n \<Longrightarrow> r \<noteq> Inl ValueError"
  "parse_children E s res word cs i k = (r, s') \<Longrightarrow> well_shaped_slots cs \<Longrightarrow>
     fits (class_of res) (nat i + length cs) \<Longrightarrow> 0 \<le> i \<Longrightarrow> r \<noteq> Inl ValueError"
proof (induction E s word n k and E s res word cs i k arbitrary: r s' and r s'
    rule: parse_word_parse_children.induct)
  case (1 E s word t cs k)
  obtain r3 s3 where rq: "request E (ask s t word k) (WordTool t) = (r3, s3)"
    by (cases "request E (ask s t word k) (WordTool t)")
  show ?case
  proof (cases r3)
    case (Inl e)
    then have "r = Inl e" using "1.prems"(1) rq by (simp add: parse_word_unfold)
    then show ?thesis using request_not_ValueError [OF rq [unfolded Inl]] by simp
  next
    case (Inr payload)
    note r3 = this
    show ?thesis
    proof (cases "model_validate_json (json_loads E) t payload")
      case (Inl e)
      then have "r = Inl ValidationError \<or> r = Inl MarkupError"
        using "1.prems"(1) rq r3 validate_only_ValidationError [OF Inl]
        by (auto simp: parse_word_unfold split: if_splits)
      then show ?thesis by auto
    next
      case (Inr res)
      let ?s4 = "s3\<lparr>outfile := outfile s3 @ [AnswerLine (k + 1) res]\<rparr>"
      have pc: "parse_children E ?s4 res word cs 0 k = (r, s')"
        using "1.prems"(1) rq r3 Inr by (simp add: parse_word_unfold)
      have rq': "(r3, s3) = request E
          ((s\<lparr>outfile := outfile s @ [WordLine k word]\<rparr>)
             \<lparr>queue := register_user_message (queue (s\<lparr>outfile := outfile s @ [WordLine k word]\<rparr>))
                 (get_question t word)\<rparr>) (WordTool t)"
        using rq by (simp only: ask_let)
      have "class_of res = t" using Inr by (rule validate_class)
      then have f: "fits (class_of res) (nat 0 + length cs)" using "1.prems"(2) by simp
      have ws: "well_shaped_slots cs" using "1.prems"(2) by simp
      from "1.IH" [OF refl refl rq' r3 Inr pc ws f] show ?thesis by simp
    qed
  qed
next
  case (2 E s res word i k)
  then show ?case by auto
next
  case (3 E s res word child rest i k)
  have "valid_index res i"
    using "3.prems"(3,4) by (intro fits_valid [of res "nat i + length (child # rest)"]) auto
  then obtain part where gp: "get_part res word i = Inr part"
    using get_part_valid by blast
  have f: "fits (class_of res) (nat (i + 1) + length rest)"
    using "3.prems"(3,4) by (simp add: nat_add_distrib)
  have i1: "0 \<le> i + 1" using "3.prems"(4) by simp
  show ?case
  proof (cases child)
    case None
    then have pc: "parse_children E s res word rest (i + 1) k = (r, s')"
      using "3.prems"(1) gp by simp
    have ws: "well_shaped_slots rest" using "3.prems"(2) None by simp
    from "3.IH"(1) [OF gp None pc ws f i1] show ?thesis .
  next
    case (Some c)
    have ws: "well_shaped_slots rest" and wc: "well_shaped c" using "3.prems"(2) Some by simp_all
    show ?thesis
    proof (cases "part = []")
      case True
      then have pc: "parse_children E s res word rest (i + 1) k = (r, s')"
        using "3.prems"(1) gp Some by simp
      have ne: "\<not> part \<noteq> []" using True by simp
      from "3.IH"(4) [OF gp Some ne pc ws f i1] show ?thesis .
    next
      case False
      obtain r1 s1 where pw: "parse_word E s part c (k + 1) = (r1, s1)"
        by (cases "parse_word E s part c (k + 1)")
      from "3.IH"(2) [OF gp Some False pw wc] have r1: "r1 \<noteq> Inl ValueError" .
      show ?thesis
      proof (cases r1)
        case (Inl e)
        then have "r = r1" using "3.prems"(1) gp Some False pw by simp
        then show ?thesis using r1 by simp
      next
        case (Inr u)
        then have pc: "parse_children E s1 res word rest (i + 1) k = (r, s')"
          using "3.prems"(1) gp Some False pw by simp
        from "3.IH"(3) [OF gp Some False pw [symmetric] Inr pc ws f i1] show ?thesis .
      qed
    qed
  qed
qed

lemma well_shaped_response_tree: "well_shaped response_tree"
  by (simp add: response_tree_def)

text \<open>
  C2, as stated: an out-of-range index is fatal and recovered nowhere. With a tree whose
  prefix node has three child slots the walker calls \<open>get_part\<close> with index 2 and
  \<open>ValueError\<close> leaves \<open>parse_word\<close>; the sentence driver catches it like any other
  exception, prints its warning, writes the blank line, and returns normally.
\<close>

theorem driver_recovers_ValueError:
  "fst (parse_word (scripted [(200, JObject [(lit ''prefix'', JNull)])]) start [1, 2]
          (Node PrefixedAnalyticalWord [None, None, None]) 0) = Inl ValueError
   \<and> fst (parse_sentence_with (Node PrefixedAnalyticalWord [None, None, None])
          (scripted [(200, JObject [(lit ''words'', JArray [JString [1, 2]])]),
                     (200, JObject [(lit ''prefix'', JNull)])]) start [7]) = Inr ()
   \<and> outfile (snd (parse_sentence_with (Node PrefixedAnalyticalWord [None, None, None])
          (scripted [(200, JObject [(lit ''words'', JArray [JString [1, 2]])]),
                     (200, JObject [(lit ''prefix'', JNull)])]) start [7]))
       = [SentenceLine [7],
          WordLine 0 [1, 2], AnswerLine 1 (PrefixedAnalyticalWordResponse None), Blank]
   \<and> console (snd (parse_sentence_with (Node PrefixedAnalyticalWord [None, None, None])
          (scripted [(200, JObject [(lit ''words'', JArray [JString [1, 2]])]),
                     (200, JObject [(lit ''prefix'', JNull)])]) start [7]))
       = [SentenceFailed]"
  by (simp add: run_defs parse_sentence_with_def)

text \<open>
  C2, amended: \<open>get_part\<close> raises \<open>ValueError\<close> for an index outside the range of its
  class; the walker has no handler, so the exception ends the loop over the slots, every
  enclosing loop and \<open>parse_word\<close> itself; the sentence driver catches it as it catches
  every exception of a word, prints the warning, writes the blank line and goes on with
  the remaining words. In a tree where no node has more slots than its class has parts no
  such call is made, and the authored tree is such a tree.
\<close>

theorem out_of_range_index_caught_by_driver:
  "(\<not> valid_index res i \<longrightarrow> get_part res word i = Inl ValueError)
   \<and> (get_part res word i = Inl e \<longrightarrow>
        parse_children E s res word (child # rest) i k = (Inl e, s))
   \<and> (get_part res' word' i' = Inr part \<and> part \<noteq> []
        \<and> parse_word E s part c (k + 1) = (Inl e, s1) \<longrightarrow>
        parse_children E s res' word' (Some c # rest) i' k = (Inl e, s1))
   \<and> (request E (ask s ty word k) (WordTool ty) = (Inr payload, s3)
        \<and> model_validate_json (json_loads E) ty payload = Inr res \<longrightarrow>
        parse_word E s word (Node ty slots) k
        = parse_children E (s3\<lparr>outfile := outfile s3 @ [AnswerLine (k + 1) res]\<rparr>)
            res word slots 0 k)
   \<and> (parse_word E s word tree 0 = (Inl e, s2) \<longrightarrow>
        parse_words E tree s (word # others)
        = parse_words E tree (s2\<lparr>console := console s2 @ [SentenceFailed],
                                 outfile := outfile s2 @ [Blank]\<rparr>) others
        \<and> fst (parse_words E tree s (word # others)) = Inr ())
   \<and> (well_shaped tree' \<longrightarrow> fst (parse_word E s word tree' k) \<noteq> Inl ValueError)
   \<and> well_shaped response_tree"
proof -
  have a: "\<not> valid_index res i \<longrightarrow> get_part res word i = Inl ValueError"
    using get_part_raises by blast
  have b: "get_part res word i = Inl e \<longrightarrow>
        parse_children E s res word (child # rest) i k = (Inl e, s)"
    by simp
  have c: "get_part res' word' i' = Inr part \<and> part \<noteq> []
        \<and> parse_word E s part c (k + 1) = (Inl e, s1) \<longrightarrow>
        parse_children E s res' word' (Some c # rest) i' k = (Inl e, s1)"
    by simp
  have d: "request E (ask s ty word k) (WordTool ty) = (Inr payload, s3)
        \<and> model_validate_json (json_loads E) ty payload = Inr res \<longrightarrow>
        parse_word E s word (Node ty slots) k
        = parse_children E (s3\<lparr>outfile := outfile s3 @ [AnswerLine (k + 1) res]\<rparr>)
            res word slots 0 k"
    by (simp add: parse_word_unfold)
  have e: "fst (parse_words E tree s (word # others)) = Inr ()"
    using parse_words_blocks [of E tree s "word # others"] by auto
  have f: "well_shaped tree' \<longrightarrow> fst (parse_word E s word tree' k) \<noteq> Inl ValueError"
    using parse_no_ValueError(1) [of E s word tree' k "fst (parse_word E s word tree' k)"
        "snd (parse_word E s word tree' k)"] by simp
  show ?thesis
    using a b c d e f parse_words_failed [of E s word tree e s2 others] well_shaped_response_tree
    by blast
qed

text \<open>
  The amended C2 at a prefix node with three empty slots, asked about a word whose answer
  has no prefix: index 2 is out of range.
\<close>

theorem out_of_range_index_caught_by_driver_witness:
  "\<not> valid_index (PrefixedAnalyticalWordResponse None) 2
   \<and> get_part (PrefixedAnalyticalWordResponse None) [1, 2] 2 = Inl ValueError
   \<and> get_part (CompleteFormResponse [1, 2]) [3] 0 = Inr [1, 2]
   \<and> fst (request (scripted [(200, JObject [(lit ''prefix'', JNull)])])
          (ask start PrefixedAnalyticalWord [1, 2] 0) (WordTool PrefixedAnalyticalWord)) = Inr [1]
   \<and> model_validate_json (json_loads (scripted [(200, JObject [(lit ''prefix'', JNull)])]))
        PrefixedAnalyticalWord [1] = Inr (PrefixedAnalyticalWordResponse None)
   \<and> fst (parse_word (scripted [(200, JObject [(lit ''prefix'', JNull)])]) start [1, 2]
          (Node PrefixedAnalyticalWord [None, None, None]) 0) = Inl ValueError
   \<and> fst (parse_word (scripted [(200, JObject [(lit ''prefix'', JNull)])]) start [1, 2]
          (Node PrefixedAnalyticalWord [None, None, None]) 1) = Inl ValueError
   \<and> fst (parse_children (scripted [(200, JObject [(lit ''prefix'', JNull)])]) start
          (CompleteFormResponse [1, 2]) [3] [Some (Node PrefixedAnalyticalWord [None, None, None])]
          0 0) = Inl ValueError
   \<and> fst (parse_words (scripted [(200, JObject [(lit ''prefix'', JNull)])])
          (Node PrefixedAnalyticalWord [None, None, None]) start [[1, 2]]) = Inr ()
   \<and> console (snd (parse_words (scripted [(200, JObject [(lit ''prefix'', JNull)])])
          (Node PrefixedAnalyticalWord [None, None, None]) start [[1, 2]])) = [SentenceFailed]
   \<and> well_shaped response_tree
   \<and> fst (parse_word (scripted [(200, JObject [(lit ''prefix'', JNull)])]) start [1, 2]
          response_tree 0) \<noteq> Inl ValueError"
proof -
  let ?E = "scripted [(200, JObject [(lit ''prefix'', JNull)])]"
  let ?bad = "Node PrefixedAnalyticalWord [None, None, None]"
  let ?res = "PrefixedAnalyticalWordResponse None"
  let ?s3 = "snd (request ?E (ask start PrefixedAnalyticalWord [1, 2] 0) (WordTool PrefixedAnalyticalWord))"
  let ?s1 = "snd (parse_word ?E start [1, 2] ?bad 1)"
  let ?s2 = "snd (parse_word ?E start [1, 2] ?bad 0)"
  have h1: "\<not> valid_index ?res 2" by (simp add: valid_index_def)
  have h2: "get_part ?res [1, 2] 2 = Inl ValueError" by simp
  have h3: "get_part (CompleteFormResponse [1, 2]) [3] 0 = Inr [1, 2]" by simp
  have rq: "fst (request ?E (ask start PrefixedAnalyticalWord [1, 2] 0) (WordTool PrefixedAnalyticalWord))
      = Inr [1]"
    by (simp add: run_defs ask_def)
  have h4: "request ?E (ask start PrefixedAnalyticalWord [1, 2] 0) (WordTool PrefixedAnalyticalWord)
      = (Inr [1], ?s3)"
    using rq request_pair [of ?E "ask start PrefixedAnalyticalWord [1, 2] 0" "WordTool PrefixedAnalyticalWord"]
    by simp
  have h5: "model_validate_json (json_loads ?E) PrefixedAnalyticalWord [1] = Inr ?res"
    by (simp add: run_defs)
  have f0: "fst (parse_word ?E start [1, 2] ?bad 0) = Inl ValueError" by (simp add: run_defs)
  have f1: "fst (parse_word ?E start [1, 2] ?bad 1) = Inl ValueError" by (simp add: run_defs)
  have h6: "parse_word ?E start [1, 2] ?bad (0 + 1) = (Inl ValueError, ?s1)"
    using f1 by (simp add: prod_eq_iff)
  have h7: "parse_word ?E start [1, 2] ?bad 0 = (Inl ValueError, ?s2)"
    using f0 by (simp add: prod_eq_iff)
  have cs: "console ?s2 = []" by (simp add: run_defs)
  from out_of_range_index_caught_by_driver [where res = ?res and i = 2 and word = "[1, 2]"
      and e = ValueError and E = ?E and s = start and child = None and rest = "[]" and k = 0
      and res' = "CompleteFormResponse [1, 2]" and word' = "[3]" and i' = 0 and part = "[1, 2]"
      and c = ?bad and ?s1.0 = ?s1 and ty = PrefixedAnalyticalWord and payload = "[1]"
      and ?s3.0 = ?s3 and slots = "[None, None, None]" and tree = ?bad and ?s2.0 = ?s2
      and others = "[]" and tree' = response_tree]
  show ?thesis using h1 h2 h3 rq h4 h5 f0 f1 h6 h7 cs by simp
qed

section \<open>Absent fields\<close>

lemma validated_field_present:
  "model_validate PrefixedAnalyticalWord (JObject kvs) = Inr res \<Longrightarrow> map_of kvs (lit ''prefix'') \<noteq> None"
  "model_validate SuffixedPronoun (JObject kvs) = Inr res \<Longrightarrow> map_of kvs (lit ''suffix'') \<noteq> None"
  "model_validate PrefixedSuffixedMorpheme (JObject kvs) = Inr res \<Longrightarrow>
     map_of kvs (lit ''prefix'') \<noteq> None \<and> map_of kvs (lit ''suffix'') \<noteq> None"
  by (auto simp: field_def bind_eq_Some_conv split: if_splits option.splits)

lemma no_null_token:
  "\<not> sublist (lit ''None'') (str (PrefixedAnalyticalWordResponse None))"
  "\<not> sublist (lit ''null'') (str (PrefixedAnalyticalWordResponse None))"
  "\<not> sublist (lit ''None'') (str (SuffixedPronounResponse None))"
  "\<not> sublist (lit ''null'') (str (SuffixedPronounResponse None))"
  "\<not> sublist (lit ''None'') (str (PrefixedSuffixedMorphemeResponse None None))"
  "\<not> sublist (lit ''null'') (str (PrefixedSuffixedMorphemeResponse None None))"
  by (simp_all add: lit_def empty_def or_else_def sublist_Cons_right)

text \<open>
  C6, as stated: an optional field defaults to absent. No field of the answer classes
  declares a default, so a payload that leaves the field out does not validate: the object
  without members is rejected for the prefix question, and the walker raises.
\<close>

theorem missing_field_rejected:
  "model_validate PrefixedAnalyticalWord (JObject []) = Inl ValidationError
   \<and> model_validate_json (json_loads (scripted [(200, JObject [])])) PrefixedAnalyticalWord [1]
       = Inl ValidationError
   \<and> fst (parse_word (scripted [(200, JObject [])]) start [1, 2] response_tree 0)
       = Inl ValidationError"
  by (simp add: parse_word.simps scripted_def start_def request_def register_response_def Let_def
      model_validate_json_def MessageQueue_def register_user_message_def register_message_def
      get_messages_def known_keys_def field_def response_tree_def markup_closes_def)

text \<open>
  C6, amended: an optional field has no default; a payload validates only if it gives the
  field, and it may give \<open>null\<close>. A field that is \<open>null\<close> (or the empty string) is
  rendered as the one character U+2205 and extracted as the empty string; the rendering of
  an answer whose optional fields are all absent contains neither \<open>None\<close> nor \<open>null\<close>.
\<close>

theorem absent_field_rendering:
  "empty = [8709]
   \<and> model_validate PrefixedAnalyticalWord (JObject [(lit ''prefix'', JNull)])
       = Inr (PrefixedAnalyticalWordResponse None)
   \<and> (model_validate PrefixedAnalyticalWord (JObject kvs1) = Inr res1
        \<longrightarrow> map_of kvs1 (lit ''prefix'') \<noteq> None)
   \<and> (model_validate SuffixedPronoun (JObject kvs2) = Inr res2
        \<longrightarrow> map_of kvs2 (lit ''suffix'') \<noteq> None)
   \<and> (model_validate PrefixedSuffixedMorpheme (JObject kvs3) = Inr res3
        \<longrightarrow> map_of kvs3 (lit ''prefix'') \<noteq> None \<and> map_of kvs3 (lit ''suffix'') \<noteq> None)
   \<and> str (PrefixedAnalyticalWordResponse None) = lit ''Prefix: '' @ empty
   \<and> str (PrefixedAnalyticalWordResponse (Some [])) = lit ''Prefix: '' @ empty
   \<and> get_part (PrefixedAnalyticalWordResponse None) word 0 = Inr []
   \<and> str (SuffixedPronounResponse None) = lit ''Suffix: '' @ empty
   \<and> str (SuffixedPronounResponse (Some [])) = lit ''Suffix: '' @ empty
   \<and> get_part (SuffixedPronounResponse None) word 1 = Inr []
   \<and> str (PrefixedSuffixedMorphemeResponse None sf)
       = lit ''Prefix: '' @ empty @ lit '', Suffix: '' @ or_else sf empty
   \<and> get_part (PrefixedSuffixedMorphemeResponse None sf) word 0 = Inr []
   \<and> str (PrefixedSuffixedMorphemeResponse p None)
       = lit ''Prefix: '' @ or_else p empty @ lit '', Suffix: '' @ empty
   \<and> get_part (PrefixedSuffixedMorphemeResponse p None) word 2 = Inr []
   \<and> \<not> sublist (lit ''None'') (str (PrefixedAnalyticalWordResponse None))
   \<and> \<not> sublist (lit ''null'') (str (PrefixedAnalyticalWordResponse None))
   \<and> \<not> sublist (lit ''None'') (str (SuffixedPronounResponse None))
   \<and> \<not> sublist (lit ''null'') (str (SuffixedPronounResponse None))
   \<and> \<not> sublist (lit ''None'') (str (PrefixedSuffixedMorphemeResponse None None))
   \<and> \<not> sublist (lit ''null'') (str (PrefixedSuffixedMorphemeResponse None None))"
proof -
  have v: "model_validate PrefixedAnalyticalWord (JObject [(lit ''prefix'', JNull)])
       = Inr (PrefixedAnalyticalWordResponse None)"
    by (simp add: known_keys_def field_def)
  have r: "str (PrefixedAnalyticalWordResponse None) = lit ''Prefix: '' @ empty"
    "str (PrefixedAnalyticalWordResponse (Some [])) = lit ''Prefix: '' @ empty"
    "str (SuffixedPronounResponse None) = lit ''Suffix: '' @ empty"
    "str (SuffixedPronounResponse (Some [])) = lit ''Suffix: '' @ empty"
    "str (PrefixedSuffixedMorphemeResponse None sf)
       = lit ''Prefix: '' @ empty @ lit '', Suffix: '' @ or_else sf empty"
    "str (PrefixedSuffixedMorphemeResponse p None)
       = lit ''Prefix: '' @ or_else p empty @ lit '', Suffix: '' @ empty"
    by (simp_all add: or_else_def)
  have g: "get_part (PrefixedAnalyticalWordResponse None) word 0 = Inr []"
    "get_part (SuffixedPronounResponse None) word 1 = Inr []"
    "get_part (PrefixedSuffixedMorphemeResponse None sf) word 0 = Inr []"
    "get_part (PrefixedSuffixedMorphemeResponse p None) word 2 = Inr []"
    by (simp_all add: or_else_def Let_def)
  have e: "empty = [8709]" by (simp add: empty_def)
  show ?thesis
    using e v r g validated_field_present(1) [of kvs1 res1] validated_field_present(2) [of kvs2 res2]
      validated_field_present(3) [of kvs3 res3] no_null_token
    by blast
qed

text \<open>The amended C6 at the suffix answer \<open>null\<close>.\<close>

theorem absent_field_rendering_witness:
  "model_validate PrefixedAnalyticalWord (JObject [(lit ''prefix'', JNull)])
     = Inr (PrefixedAnalyticalWordResponse None)
   \<and> map_of [(lit ''prefix'', JNull)] (lit ''prefix'') = Some JNull
   \<and> model_validate SuffixedPronoun (JObject [(lit ''suffix'', JNull)])
     = Inr (SuffixedPronounResponse None)
   \<and> map_of [(lit ''suffix'', JNull)] (lit ''suffix'') = Some JNull
   \<and> model_validate PrefixedSuffixedMorpheme
         (JObject [(lit ''prefix'', JNull), (lit ''suffix'', JString [1826])])
     = Inr (PrefixedSuffixedMorphemeResponse None (Some [1826]))
   \<and> map_of [(lit ''prefix'', JNull), (lit ''suffix'', JString [1826])] (lit ''suffix'')
     = Some (JString [1826])
   \<and> str (PrefixedSuffixedMorphemeResponse None (Some [1826]))
     = lit ''Prefix: '' @ [8709] @ lit '', Suffix: '' @ [1826]"
  using absent_field_rendering [where ?kvs1.0 = "[(lit ''prefix'', JNull)]"
      and ?res1.0 = "PrefixedAnalyticalWordResponse None"
      and ?kvs2.0 = "[(lit ''suffix'', JNull)]"
      and ?res2.0 = "SuffixedPronounResponse None"
      and ?kvs3.0 = "[(lit ''prefix'', JNull), (lit ''suffix'', JString [1826])]"
      and ?res3.0 = "PrefixedSuffixedMorphemeResponse None (Some [1826])"
      and sf = "Some [1826]"]
  by (simp add: known_keys_def field_def empty_def or_else_def lit_def)

end
